theory Spec2Isabelle
  imports Complex_Main "HOL-Library.Multiset" "HOL-Library.Stream" "HOL-Library.Log_Nat"
    "HOL-Library.AList"
begin

chapter \<open>The model\<close>

section \<open>Errors raised by the monitoring service\<close>

text \<open>Every exception the modelled code raises is a value of this type; a function that
  can raise returns \<open>error + 'a\<close> with \<open>Inl\<close> for the exception.\<close>

datatype error =
    StopIteration
  | ValueError
  | KeyError
  | TypeError
  | ZeroDivisionError
  | OverflowError
  | AssertionError
  | ValidationError
  | NoBlockError
  | HTTPError
  | BadParameter
  | OSError
  | RequestError

text \<open>The messenger (notifier.py). \<open>telegram\<close> is \<open>None\<close> or an object whose
  \<open>send_broadcast_message\<close> asks the Telegram API for the chats and posts the message to each
  of them. None of its requests is guarded, so a broadcast can raise. A messenger is modelled
  by the function that gives, for a message, the exception that its broadcast raises, or
  \<open>None\<close> when the broadcast completes. A broadcast that raises may have reached some chats;
  the model records a broadcast only when it completed.\<close>

type_synonym 'm messenger = "('m \<Rightarrow> error option) option"

section \<open>Configuration constants\<close>

text \<open>Every module reads its chain constants from \<open>configs/config.yml\<close> when it is loaded
  (\<open>service/__init__.py\<close>). The file is not part of the sources, so the constants are a
  parameter of the model: a record with one integer field for each key the modelled code reads.\<close>

record config =
  SECONDS_PER_SLOT :: int
  SLOTS_PER_EPOCH :: int
  CHURN_LIMIT_QUOTIENT :: int
  MAX_PER_EPOCH_ACTIVATION_CHURN_LIMIT :: int
  ETH2_ADDRESS_LEN :: int

text \<open>Modelled from the spec: the values of the missing \<open>configs/config.yml\<close>, as the churn
  scenario of the specification gives them (quotient 65536, cap 8, 384 seconds per epoch, that
  is 32 slots of 12 seconds) and its key file format (96 hexadecimal characters per key).\<close>

definition spec_config :: config where
  "spec_config = \<lparr> SECONDS_PER_SLOT = 12, SLOTS_PER_EPOCH = 32,
     CHURN_LIMIT_QUOTIENT = 65536, MAX_PER_EPOCH_ACTIVATION_CHURN_LIMIT = 8,
     ETH2_ADDRESS_LEN = 96 \<rparr>"

section \<open>Python numbers\<close>

text \<open>Python's \<open>int\<close> is unbounded and is modelled by \<open>int\<close>; \<open>//\<close> rounds towards minus
  infinity, as \<open>div\<close> does, and raises on a zero divisor.\<close>

definition py_floordiv :: "int \<Rightarrow> int \<Rightarrow> error + int" where
  "py_floordiv a b = (if b = 0 then Inl ZeroDivisionError else Inr (a div b))"

text \<open>A Python \<open>float\<close> is an IEEE 754 binary64 number. The model keeps a finite float as the
  rational number it denotes (the sign of zero is not kept), and every float operation as the
  exact operation on rationals followed by rounding to the nearest binary64 number, ties to
  the even significand. \<open>rat_exponent x\<close> is the binary exponent (the floor of the binary logarithm) of a positive
  rational, found from the bit lengths of its numerator and denominator. A number keeps 53
  significant bits, or fewer below the smallest normal number \<open>2 powi (- 1022)\<close>, where the spacing
  stays \<open>2 powi (- 1074)\<close>. A result of magnitude \<open>2 ^ 1024\<close> or more stands for an overflow, which the
  operations below turn into the exception or the infinity Python produces.\<close>

definition rat_exponent :: "rat \<Rightarrow> int" where
  "rat_exponent x =
     (let (a, b) = quotient_of x;
          e0 = bitlen a - bitlen b
      in if 2 powi e0 \<le> x then e0 else e0 - 1)"

definition round_half_even :: "rat \<Rightarrow> int" where
  "round_half_even y =
     (let f = \<lfloor>y\<rfloor>; r = y - of_int f
      in if r < 1 / 2 then f
         else if 1 / 2 < r then f + 1
         else if even f then f else f + 1)"

definition round_to_double :: "rat \<Rightarrow> rat" where
  "round_to_double x =
     (if x = 0 then 0
      else let s = max (rat_exponent \<bar>x\<bar> - 52) (- 1074)
           in sgn x * of_int (round_half_even (\<bar>x\<bar> / 2 powi s)) * 2 powi s)"

definition is_finite_double :: "rat \<Rightarrow> bool" where
  "is_finite_double r = (\<bar>r\<bar> < 2 ^ 1024)"

text \<open>\<open>a / b\<close> on two Python integers: the correctly rounded quotient, \<open>ZeroDivisionError\<close> on
  a zero divisor and \<open>OverflowError\<close> when the quotient is too large for a float.\<close>

definition int_truediv :: "int \<Rightarrow> int \<Rightarrow> error + rat" where
  "int_truediv a b =
     (if b = 0 then Inl ZeroDivisionError
      else let r = round_to_double (of_int a / of_int b)
           in if is_finite_double r then Inr r else Inl OverflowError)"

text \<open>\<open>float(i)\<close>, the conversion Python applies to an integer operand of a float operation.\<close>

definition float_of_int :: "int \<Rightarrow> error + rat" where
  "float_of_int i =
     (let r = round_to_double (of_int i)
      in if is_finite_double r then Inr r else Inl OverflowError)"

text \<open>\<open>int(x)\<close> on a finite float truncates towards zero; \<open>math.floor(x)\<close> rounds down.\<close>

definition py_int :: "rat \<Rightarrow> int" where
  "py_int x = (if 0 \<le> x then \<lfloor>x\<rfloor> else \<lceil>x\<rceil>)"

definition math_floor :: "rat \<Rightarrow> int" where
  "math_floor x = \<lfloor>x\<rfloor>"

text \<open>\<open>math.floor(slot / SLOTS_PER_EPOCH)\<close>, the epoch of a slot as every module computes it.\<close>

definition epoch_of_slot :: "config \<Rightarrow> int \<Rightarrow> error + int" where
  "epoch_of_slot cfg slot =
     (case int_truediv slot (SLOTS_PER_EPOCH cfg) of
        Inl e \<Rightarrow> Inl e
      | Inr q \<Rightarrow> Inr (math_floor q))"

section \<open>Activation queue (activation_queue.py)\<close>

definition SECONDS_PER_EPOCH :: "config \<Rightarrow> int" where
  "SECONDS_PER_EPOCH cfg = SECONDS_PER_SLOT cfg * SLOTS_PER_EPOCH cfg"

definition get_activation_churn :: "config \<Rightarrow> int \<Rightarrow> error + int" where
  "get_activation_churn cfg n_active_validators =
     (case py_floordiv n_active_validators (CHURN_LIMIT_QUOTIENT cfg) of
        Inl e \<Rightarrow> Inl e
      | Inr q \<Rightarrow> Inr (min (MAX_PER_EPOCH_ACTIVATION_CHURN_LIMIT cfg) q))"

definition compute_activation_duration :: "config \<Rightarrow> int \<Rightarrow> int \<Rightarrow> error + int" where
  "compute_activation_duration cfg n_active_validators n_pending_validators =
     (case get_activation_churn cfg n_active_validators of
        Inl e \<Rightarrow> Inl e
      | Inr activation_churn \<Rightarrow>
          (case int_truediv n_pending_validators activation_churn of
             Inl e \<Rightarrow> Inl e
           | Inr q \<Rightarrow>
               let epochs2proceed_queue = py_int q
               in Inr (epochs2proceed_queue * SECONDS_PER_EPOCH cfg)))"

section \<open>Bit utilities (utils.py)\<close>

text \<open>\<open>next(index for index, bit in enumerate(reversed(bits)) if bit)\<close>: the position of the
  first true bit of a list, \<open>StopIteration\<close> when there is none.\<close>

fun first_true_index :: "bool list \<Rightarrow> error + nat" where
  "first_true_index [] = Inl StopIteration"
| "first_true_index (b # bs) =
     (if b then Inr 0
      else (case first_true_index bs of Inl e \<Rightarrow> Inl e | Inr i \<Rightarrow> Inr (Suc i)))"

text \<open>Python's slice \<open>xs[:stop]\<close>: a negative \<open>stop\<close> counts from the end, and the bound is
  clamped to the list.\<close>

definition slice_to :: "'a list \<Rightarrow> int \<Rightarrow> 'a list" where
  "slice_to xs stop =
     (let n = int (length xs);
          j = (if stop < 0 then max 0 (n + stop) else min stop n)
      in take (nat j) xs)"

definition delete_zero_bits :: "bool list \<Rightarrow> error + bool list" where
  "delete_zero_bits bits =
     (case first_true_index (rev bits) of
        Inl e \<Rightarrow> Inl StopIteration
      | Inr index \<Rightarrow> Inr (slice_to bits (- int index - 1)))"

text \<open>\<open>zip(*lists)\<close>: the tuples of the elements at equal positions, as many as the shortest
  list has; no tuple at all for no list.\<close>

definition zip_star :: "'a list list \<Rightarrow> 'a list list" where
  "zip_star ls =
     (case ls of
        [] \<Rightarrow> []
      | v # vs \<Rightarrow> map (\<lambda>i. map (\<lambda>w. w ! i) ls) [0..<fold min (map length vs) (length v)])"

definition py_any :: "bool list \<Rightarrow> bool" where
  "py_any bools = list_ex (\<lambda>b. b) bools"

text \<open>\<open>_, *trash = {len(bits) for bits in list_of_bools}\<close> unpacks the set of the lengths: it
  raises \<open>ValueError\<close> on the empty set, and \<open>trash\<close> holds every length but one. The list of
  the distinct lengths stands for the set; only its size matters.\<close>

definition aggregate_bits :: "bool list list \<Rightarrow> error + bool list" where
  "aggregate_bits list_of_bools =
     (case remdups (map length list_of_bools) of
        [] \<Rightarrow> Inl ValueError
      | _ # trash \<Rightarrow>
          if trash \<noteq> [] then Inl ValueError
          else Inr (map py_any (zip_star list_of_bools)))"


section \<open>Bounded epoch cache (utils.py, class LimitedDict)\<close>

text \<open>The private dictionary is an association list with distinct keys, in insertion order;
  the keys are epochs, hence integers. \<open>__init__\<close> asserts a non-negative size.\<close>

record 'v LimitedDict =
  max_size :: int
  dict :: "(int \<times> 'v) list"

definition LimitedDict_init :: "int \<Rightarrow> error + 'v LimitedDict" where
  "LimitedDict_init limit =
     (if limit \<ge> 0 then Inr \<lparr> max_size = limit, dict = [] \<rparr> else Inl AssertionError)"

text \<open>\<open>__setitem__\<close> stores the value, then pops \<open>sorted(self.__dict)[: -self.__max_size]\<close>,
  the sorted keys up to the slice bound \<open>- max_size\<close>.\<close>

definition LimitedDict_setitem :: "'v LimitedDict \<Rightarrow> int \<Rightarrow> 'v \<Rightarrow> 'v LimitedDict" where
  "LimitedDict_setitem d key v =
     (let d1 = AList.update key v (dict d);
          first_keys = slice_to (sort (map fst d1)) (- max_size d)
      in d \<lparr> dict := fold AList.delete first_keys d1 \<rparr>)"

definition LimitedDict_getitem :: "'v LimitedDict \<Rightarrow> int \<Rightarrow> error + 'v" where
  "LimitedDict_getitem d key =
     (case map_of (dict d) key of None \<Rightarrow> Inl KeyError | Some v \<Rightarrow> Inr v)"

definition LimitedDict_contains :: "'v LimitedDict \<Rightarrow> int \<Rightarrow> bool" where
  "LimitedDict_contains d key = (key \<in> set (map fst (dict d)))"

definition LimitedDict_len :: "'v LimitedDict \<Rightarrow> nat" where
  "LimitedDict_len d = length (dict d)"

text \<open>A sequence of insertions \<open>cache[key] = value\<close>, in order.\<close>

definition LimitedDict_inserts :: "'v LimitedDict \<Rightarrow> (int \<times> 'v) list \<Rightarrow> 'v LimitedDict" where
  "LimitedDict_inserts d kvs = fold (\<lambda>(key, v) d'. LimitedDict_setitem d' key v) kvs d"

section \<open>Slashed validators (validators.py, class ValidatorsSlashed)\<close>

record validator =
  pubkey :: string
  effective_balance :: int
  slashed :: bool

text \<open>The tracker remembers two index sets, both \<open>None\<close> until the first call. A dictionary
  from validator index to validator is a map, and \<open>set(d)\<close> is its domain.\<close>

record slashed_state =
  total_exited_slashed_indexes :: "int set option"
  own_exited_slashed_indexes :: "int set option"

definition ValidatorsSlashed_init :: slashed_state where
  "ValidatorsSlashed_init =
     \<lparr> total_exited_slashed_indexes = None, own_exited_slashed_indexes = None \<rparr>"

text \<open>What a call leaves behind: the tracker's state, the values set on the two gauges, the
  public keys of the own validators reported as slashed (printed, and sent when a messenger
  is configured), and the exception that ended the call, if any.\<close>

record slashed_outcome =
  state_after :: slashed_state
  network_validators_slashed :: nat
  own_validators_slashed :: nat
  own_slashed_alerts :: "string set"
  raised :: "error option"

text \<open>The first loop builds its message from
  \<open>not_own_new_exited_slashed_indexes[index].pubkey\<close>: it subscripts a set, which raises
  \<open>TypeError\<close> in the first iteration, so the loop raises as soon as the set has an element.
  The second loop reads \<open>own_exited_slashed_index2validator[index]\<close> for indices of that
  dictionary, which cannot fail.\<close>

definition ValidatorsSlashed_process ::
  "slashed_state \<Rightarrow> (int \<rightharpoonup> validator) \<Rightarrow> (int \<rightharpoonup> validator) \<Rightarrow> (int \<rightharpoonup> validator)
     \<Rightarrow> (int \<rightharpoonup> validator) \<Rightarrow> slashed_outcome" where
  "ValidatorsSlashed_process st total_exited_slashed_index2validator
       own_exited_slashed_index2validator total_withdrawal_index2validator
       own_withdrawal_index2validator =
     (let total_slashed_withdrawal =
            {index \<in> dom total_withdrawal_index2validator.
               slashed (the (total_withdrawal_index2validator index))};
          own_slashed_withdrawal =
            {index \<in> dom own_withdrawal_index2validator.
               slashed (the (own_withdrawal_index2validator index))};
          total_slashed_indexes = dom total_exited_slashed_index2validator \<union> total_slashed_withdrawal;
          own_slashed_indexes = dom own_exited_slashed_index2validator \<union> own_slashed_withdrawal;
          total_exited = dom total_exited_slashed_index2validator;
          own_exited = dom own_exited_slashed_index2validator;
          primed = \<lparr> total_exited_slashed_indexes = Some total_exited,
                     own_exited_slashed_indexes = Some own_exited \<rparr>;
          out = \<lparr> state_after = st,
                  network_validators_slashed = card total_slashed_indexes,
                  own_validators_slashed = card own_slashed_indexes,
                  own_slashed_alerts = {}, raised = None \<rparr>
      in case (total_exited_slashed_indexes st, own_exited_slashed_indexes st) of
           (Some total_before, Some own_before) \<Rightarrow>
             (let total_new = total_exited - total_before;
                  own_new = own_exited - own_before;
                  not_own_new = total_new - own_new
              in if not_own_new \<noteq> {} then out \<lparr> raised := Some TypeError \<rparr>
                 else out \<lparr> state_after := primed,
                            own_slashed_alerts :=
                              (\<lambda>index. pubkey (the (own_exited_slashed_index2validator index)))
                                ` own_new \<rparr>)
         | _ \<Rightarrow> out \<lparr> state_after := primed \<rparr>)"

section \<open>Consensus node client (cl_node.py, data_types.py)\<close>

datatype ConsensusClient = LIGHTHOUSE | PRYSM | TEKU | NIMBUS | OTHER

text \<open>The pydantic models of the rewards response. \<open>Rewards.Data\<close> declares two required
  fields, \<open>ideal_rewards\<close> and \<open>total_rewards\<close>. A pydantic model is built from keyword
  arguments: an argument whose name is no field is ignored, and a required field with no
  argument raises \<open>ValidationError\<close>. The keyword arguments are an association list from
  names to raw reward rows (balance or index, source, target, head).\<close>

record PossibleReward =
  reward_effective_balance :: int
  possible_source :: int
  possible_target :: int
  possible_head :: int

record EarnedReward =
  validator_index :: int
  earned_source :: int
  earned_target :: int
  earned_head :: int

record Rewards_Data =
  ideal_rewards :: "PossibleReward list"
  total_rewards :: "EarnedReward list"

record Rewards =
  data :: Rewards_Data

type_synonym reward_row = "int \<times> int \<times> int \<times> int"

definition Rewards_Data_init :: "(string \<times> reward_row list) list \<Rightarrow> error + Rewards_Data" where
  "Rewards_Data_init kwargs =
     (case (map_of kwargs ''ideal_rewards'', map_of kwargs ''total_rewards'') of
        (Some ideal_rows, Some total_rows) \<Rightarrow>
          Inr \<lparr> ideal_rewards =
                  map (\<lambda>(b, s, t, h). \<lparr> reward_effective_balance = b, possible_source = s,
                         possible_target = t, possible_head = h \<rparr>) ideal_rows,
                total_rewards =
                  map (\<lambda>(i, s, t, h). \<lparr> validator_index = i, earned_source = s,
                         earned_target = t, earned_head = h \<rparr>) total_rows \<rparr>
      | _ \<Rightarrow> Inl ValidationError)"

text \<open>The beacon node is the environment of the client. For the two endpoints modelled here
  it answers a request with parsed data or with an HTTP error status; the liveness request
  goes to the endpoint of the client variant.\<close>

datatype liveness_reply = LivenessData "(int \<times> bool) list" | BadRequest | OtherStatus

record beacon =
  post_rewards :: "int \<Rightarrow> int list \<Rightarrow> error + Rewards"
  post_liveness :: "ConsensusClient \<Rightarrow> int \<Rightarrow> int list \<Rightarrow> liveness_reply"

text \<open>The client object keeps two flags for its one-shot warnings.\<close>

record ConsensusNode =
  first_liveness_call :: bool
  first_rewards_call :: bool

definition ConsensusNode_init :: ConsensusNode where
  "ConsensusNode_init = \<lparr> first_liveness_call = True, first_rewards_call = True \<rparr>"

datatype log_line =
    RewardsUnsupportedWarning
  | LivenessUnsupportedWarning
  | LivenessUnknownForEpoch int

text \<open>A call returns the client after the call, the lines it printed, the number of requests
  it sent to the beacon node, and its value or exception.\<close>

record 'a node_call =
  node_after :: ConsensusNode
  printed :: "log_line list"
  requests :: nat
  returned :: "error + 'a"

definition get_rewards ::
  "beacon \<Rightarrow> ConsensusNode \<Rightarrow> ConsensusClient \<Rightarrow> int \<Rightarrow> int set option \<Rightarrow> Rewards node_call" where
  "get_rewards b self cl_client epoch validators_index =
     (if cl_client \<in> {NIMBUS, PRYSM} then
        \<lparr> node_after = self \<lparr> first_rewards_call := False \<rparr>,
          printed = (if first_rewards_call self then [RewardsUnsupportedWarning] else []),
          requests = 0,
          returned =
            (case Rewards_Data_init [(''possible_rewards'', []), (''earned_rewards'', [])] of
               Inl e \<Rightarrow> Inl e
             | Inr d \<Rightarrow> Inr \<lparr> data = d \<rparr>) \<rparr>
      else
        \<lparr> node_after = self, printed = [], requests = 1,
          returned = post_rewards b epoch
            (case validators_index of None \<Rightarrow> [] | Some vs \<Rightarrow> sorted_list_of_set vs) \<rparr>)"

definition get_validators_liveness ::
  "beacon \<Rightarrow> ConsensusNode \<Rightarrow> ConsensusClient \<Rightarrow> int \<Rightarrow> int set \<Rightarrow> (int \<rightharpoonup> bool) node_call" where
  "get_validators_liveness b self cl_client epoch validators_index =
     (if cl_client = NIMBUS then
        \<lparr> node_after = self \<lparr> first_liveness_call := False \<rparr>,
          printed = (if first_liveness_call self then [LivenessUnsupportedWarning] else []),
          requests = 0,
          returned = Inr (\<lambda>index. if index \<in> validators_index then Some True else None) \<rparr>
      else
        (case post_liveness b cl_client epoch (sorted_list_of_set validators_index) of
           LivenessData items \<Rightarrow>
             \<lparr> node_after = self, printed = [], requests = 1,
               returned = Inr (map_of (rev items)) \<rparr>
         | BadRequest \<Rightarrow>
             \<lparr> node_after = self, printed = [LivenessUnknownForEpoch epoch], requests = 1,
               returned = Inr (\<lambda>index. if index \<in> validators_index then Some True else None) \<rparr>
         | OtherStatus \<Rightarrow>
             \<lparr> node_after = self, printed = [], requests = 1, returned = Inl HTTPError \<rparr>))"

section \<open>Slot clock (utils.py, get_next_slot)\<close>

text \<open>The generator computes its first slot from the clock, then yields the pairs of a
  slot and its start time for ever, the slot growing by one each time; the sleep before each
  pair delays it and does not change it. The pairs it yields are a stream.\<close>

primcorec slots_from :: "config \<Rightarrow> int \<Rightarrow> int \<Rightarrow> (int \<times> int) stream" where
  "slots_from cfg genesis_time_sec next_slot =
     SCons (next_slot, genesis_time_sec + next_slot * SECONDS_PER_SLOT cfg)
       (slots_from cfg genesis_time_sec (next_slot + 1))"

text \<open>\<open>int((time() - genesis_time_sec) / SECONDS_PER_SLOT) + 1\<close>, where \<open>now\<close> is the float
  that \<open>time()\<close> returns. Both integer operands are converted to floats, the subtraction and
  the division round, and \<open>int\<close> truncates towards zero. A difference that overflows is an
  infinity, which the division keeps and \<open>int\<close> rejects with \<open>OverflowError\<close>.\<close>

definition first_slot :: "config \<Rightarrow> rat \<Rightarrow> int \<Rightarrow> error + int" where
  "first_slot cfg now genesis_time_sec =
     (case float_of_int genesis_time_sec of
        Inl e \<Rightarrow> Inl e
      | Inr genesis \<Rightarrow>
          let elapsed = round_to_double (now - genesis)
          in (case float_of_int (SECONDS_PER_SLOT cfg) of
                Inl e \<Rightarrow> Inl e
              | Inr seconds \<Rightarrow>
                  if seconds = 0 then Inl ZeroDivisionError
                  else if \<not> is_finite_double elapsed then Inl OverflowError
                  else Inr (py_int (round_to_double (elapsed / seconds)) + 1)))"

definition get_next_slot :: "config \<Rightarrow> rat \<Rightarrow> int \<Rightarrow> error + (int \<times> int) stream" where
  "get_next_slot cfg now genesis_time_sec =
     (case first_slot cfg now genesis_time_sec of
        Inl e \<Rightarrow> Inl e
      | Inr next_slot \<Rightarrow> Inr (slots_from cfg genesis_time_sec next_slot))"

section \<open>Missed blocks at finalization (blocks.py, process_missed_blocks_finalized)\<close>

record ProposerDuty =
  duty_pubkey :: string
  duty_validator_index :: int
  duty_slot :: int

text \<open>What the function asks of the beacon node. \<open>get_header\<close> returns a header, raises
  \<open>NoBlockError\<close> on status 404 and re-raises any other \<open>HTTPError\<close>; only the slot of a
  header is read. \<open>get_proposer_duties\<close> returns the duties of an epoch or raises
  \<open>HTTPError\<close>; its cache does not change what it returns.\<close>

record beacon_chain =
  finalized_header :: "error + int"
  header_at :: "int \<Rightarrow> error + int"
  proposer_duties :: "int \<Rightarrow> error + ProposerDuty list"

text \<open>The two messages, with the values their texts embed, and the effects of a call in the
  order they happen: increments of the counters \<open>mevblock_rewards\<close> and
  \<open>n_missed_finalized_proposals\<close>, printed messages and completed broadcasts.\<close>

datatype alert =
    Proposed string int rat
  | Missed string int int

datatype effect =
    IncRewards rat
  | IncMissedFinalized
  | Print alert
  | Broadcast alert

text \<open>\<open>next(duty.pubkey for duty in data if duty.slot == slot)\<close>.\<close>

fun find_proposer :: "ProposerDuty list \<Rightarrow> int \<Rightarrow> error + string" where
  "find_proposer [] slot = Inl StopIteration"
| "find_proposer (d # ds) slot =
     (if duty_slot d = slot then Inr (duty_pubkey d) else find_proposer ds slot)"

text \<open>\<open>Counter.inc(amount)\<close> of the metrics library raises \<open>ValueError\<close> on a negative
  amount.\<close>

definition counter_inc :: "rat \<Rightarrow> error + effect" where
  "counter_inc amount = (if amount < 0 then Inl ValueError else Inr (IncRewards amount))"

text \<open>The end of an iteration for an own proposer: \<open>print(message)\<close>, then
  \<open>telegram.send_broadcast_message(message)\<close> when there is a messenger. A broadcast that
  raises ends the call after the print.\<close>

definition print_and_broadcast :: "alert messenger \<Rightarrow> alert \<Rightarrow> effect list \<times> error option" where
  "print_and_broadcast telegram message =
     (case telegram of
        None \<Rightarrow> ([Print message], None)
      | Some send \<Rightarrow>
          (case send message of
             None \<Rightarrow> ([Print message, Broadcast message], None)
           | Some e \<Rightarrow> ([Print message], Some e)))"

text \<open>One iteration of the loop over the slots: the effects it adds, and the exception that
  ends the call, if any.\<close>

definition finalized_slot_step ::
  "config \<Rightarrow> beacon_chain \<Rightarrow> rat \<Rightarrow> string set \<Rightarrow> alert messenger \<Rightarrow> int
     \<Rightarrow> effect list \<times> error option" where
  "finalized_slot_step cfg cl_node block_reward own_pubkeys telegram slot =
     (case epoch_of_slot cfg slot of
        Inl e \<Rightarrow> ([], Some e)
      | Inr epoch \<Rightarrow>
          (case proposer_duties cl_node epoch of
             Inl e \<Rightarrow> ([], Some e)
           | Inr proposer_duties_data \<Rightarrow>
               (case find_proposer proposer_duties_data slot of
                  Inl e \<Rightarrow> ([], Some e)
                | Inr proposer_pubkey \<Rightarrow>
                    if proposer_pubkey \<notin> own_pubkeys then ([], None)
                    else
                      (case header_at cl_node slot of
                         Inr header \<Rightarrow>
                           (let message = Proposed proposer_pubkey slot block_reward
                            in case counter_inc block_reward of
                                 Inl e \<Rightarrow> ([], Some e)
                               | Inr inc \<Rightarrow>
                                   (case print_and_broadcast telegram message of
                                      (effects, r) \<Rightarrow> (inc # effects, r)))
                       | Inl e \<Rightarrow>
                           if e = NoBlockError then
                             (let message = Missed proposer_pubkey epoch slot
                              in case print_and_broadcast telegram message of
                                   (effects, r) \<Rightarrow> (IncMissedFinalized # effects, r))
                           else ([], Some e)))))"

fun finalized_slots_loop ::
  "config \<Rightarrow> beacon_chain \<Rightarrow> rat \<Rightarrow> string set \<Rightarrow> alert messenger \<Rightarrow> int list
     \<Rightarrow> effect list \<times> error option" where
  "finalized_slots_loop cfg cl_node block_reward own_pubkeys telegram [] = ([], None)"
| "finalized_slots_loop cfg cl_node block_reward own_pubkeys telegram (slot # slots) =
     (case finalized_slot_step cfg cl_node block_reward own_pubkeys telegram slot of
        (effects, Some e) \<Rightarrow> (effects, Some e)
      | (effects, None) \<Rightarrow>
          (case finalized_slots_loop cfg cl_node block_reward own_pubkeys telegram slots of
             (rest, r) \<Rightarrow> (effects @ rest, r)))"

text \<open>The function returns its effects and either the finalized slot or the exception that
  ended it. \<open>range(a, b + 1)\<close> is the list \<open>[a..b]\<close>.\<close>

definition process_missed_blocks_finalized ::
  "config \<Rightarrow> beacon_chain \<Rightarrow> int \<Rightarrow> int \<Rightarrow> rat \<Rightarrow> string set \<Rightarrow> alert messenger
     \<Rightarrow> effect list \<times> (error + int)" where
  "process_missed_blocks_finalized cfg cl_node last_processed_finalized_slot slot block_reward
       own_pubkeys telegram =
     (if \<not> last_processed_finalized_slot \<le> slot then ([], Inl AssertionError)
      else
        (case finalized_header cl_node of
           Inl e \<Rightarrow> ([], Inl e)
         | Inr last_finalized_slot \<Rightarrow>
             (case epoch_of_slot cfg last_finalized_slot of
                Inl e \<Rightarrow> ([], Inl e)
              | Inr epoch_of_last_finalized_slot \<Rightarrow>
                  (case proposer_duties cl_node epoch_of_last_finalized_slot of
                     Inl e \<Rightarrow> ([], Inl e)
                   | Inr _ \<Rightarrow>
                       (case finalized_slots_loop cfg cl_node block_reward own_pubkeys telegram
                               [last_processed_finalized_slot + 1 .. last_finalized_slot] of
                          (effects, Some e) \<Rightarrow> (effects, Inl e)
                        | (effects, None) \<Rightarrow> (effects, Inr last_finalized_slot))))))"

text \<open>The statement of \<open>handle\<close> (app.py) that calls the function,
  \<open>last_processed_finalized_slot = process_missed_blocks_finalized(...)\<close>: the effects, the
  exception if the call raises, and the value of the variable after the statement, which is
  the returned slot, or the old value when the call raises and nothing is assigned.\<close>

definition assign_last_processed_finalized_slot ::
  "config \<Rightarrow> beacon_chain \<Rightarrow> int \<Rightarrow> int \<Rightarrow> rat \<Rightarrow> string set \<Rightarrow> alert messenger
     \<Rightarrow> effect list \<times> error option \<times> int" where
  "assign_last_processed_finalized_slot cfg cl_node last_processed_finalized_slot slot
       block_reward own_pubkeys telegram =
     (case process_missed_blocks_finalized cfg cl_node last_processed_finalized_slot slot
             block_reward own_pubkeys telegram of
        (effects, Inr finalized_slot) \<Rightarrow> (effects, None, finalized_slot)
      | (effects, Inl e) \<Rightarrow> (effects, Some e, last_processed_finalized_slot))"

text \<open>The claim's account of one slot, for comparison: nothing for a slot whose proposer is
  not own; for an own proposer, the reward increment and a "proposed" alert when the header
  exists, the missed-proposal increment and a "missed" alert when it does not. An alert is
  printed, and broadcast when there is a messenger.\<close>

definition expected_alert :: "config \<Rightarrow> (int \<Rightarrow> string) \<Rightarrow> (int \<Rightarrow> bool) \<Rightarrow> rat \<Rightarrow> int \<Rightarrow> alert" where
  "expected_alert cfg proposer has_block block_reward slot =
     (if has_block slot then Proposed (proposer slot) slot block_reward
      else Missed (proposer slot) (slot div SLOTS_PER_EPOCH cfg) slot)"

definition expected_slot_effects ::
  "config \<Rightarrow> (int \<Rightarrow> string) \<Rightarrow> (int \<Rightarrow> bool) \<Rightarrow> rat \<Rightarrow> string set \<Rightarrow> alert messenger \<Rightarrow> int
     \<Rightarrow> effect list" where
  "expected_slot_effects cfg proposer has_block block_reward own_pubkeys telegram slot =
     (if proposer slot \<in> own_pubkeys then
        (if has_block slot then IncRewards block_reward else IncMissedFinalized) #
        Print (expected_alert cfg proposer has_block block_reward slot) #
        (if telegram \<noteq> None
         then [Broadcast (expected_alert cfg proposer has_block block_reward slot)] else [])
      else [])"

text \<open>The requests that the iteration of a slot makes do not fail: the duties of the slot's
  epoch are fetched and name \<open>proposer slot\<close> for the slot, and for an own proposer the header
  request succeeds (when \<open>has_block slot\<close>) or raises \<open>NoBlockError\<close> (otherwise), and the
  broadcast of the alert, if there is a messenger, completes.\<close>

definition slot_requests_succeed ::
  "config \<Rightarrow> beacon_chain \<Rightarrow> (int \<Rightarrow> string) \<Rightarrow> (int \<Rightarrow> bool) \<Rightarrow> rat \<Rightarrow> string set
     \<Rightarrow> alert messenger \<Rightarrow> int \<Rightarrow> bool" where
  "slot_requests_succeed cfg cl_node proposer has_block block_reward own_pubkeys telegram slot =
     ((\<exists>ds. proposer_duties cl_node (slot div SLOTS_PER_EPOCH cfg) = Inr ds
          \<and> find_proposer ds slot = Inr (proposer slot))
      \<and> (proposer slot \<in> own_pubkeys \<longrightarrow>
            ((has_block slot \<and> (\<exists>h. header_at cl_node slot = Inr h))
             \<or> (\<not> has_block slot \<and> header_at cl_node slot = Inl NoBlockError))
          \<and> (\<forall>send. telegram = Some send \<longrightarrow>
                send (expected_alert cfg proposer has_block block_reward slot) = None)))"

text \<open>Two beacon nodes for concrete runs. The first is the finalized-reconciliation scenario
  of the specification: the finalized slot is 103, the own key \<open>0xaa\<close> proposes at 101 (header
  present) and 103 (no block), another key at 102. The second answers every header request by
  slot with a server error. The messenger of the runs never fails.\<close>

definition scenario_chain :: beacon_chain where
  "scenario_chain =
     \<lparr> finalized_header = Inr 103,
       header_at = (\<lambda>s. if s = 101 then Inr 101 else Inl NoBlockError),
       proposer_duties = (\<lambda>epoch. Inr
         [\<lparr> duty_pubkey = ''0xaa'', duty_validator_index = 1, duty_slot = 101 \<rparr>,
          \<lparr> duty_pubkey = ''0xbb'', duty_validator_index = 2, duty_slot = 102 \<rparr>,
          \<lparr> duty_pubkey = ''0xaa'', duty_validator_index = 1, duty_slot = 103 \<rparr>]) \<rparr>"

definition failing_chain :: beacon_chain where
  "failing_chain =
     \<lparr> finalized_header = Inr 101,
       header_at = (\<lambda>s. Inl HTTPError),
       proposer_duties = (\<lambda>epoch. Inr
         [\<lparr> duty_pubkey = ''0xaa'', duty_validator_index = 1, duty_slot = 101 \<rparr>]) \<rparr>"

definition reliable_messenger :: "alert messenger" where
  "reliable_messenger = Some (\<lambda>message. None)"

section \<open>Validator keys (utils.py)\<close>











section \<open>Main loop (app.py, handle)\<close>








section \<open>Decoding aggregation bits (utils.py)\<close>










section \<open>Attestation inclusion (attestations.py)\<close>





















chapter \<open>Properties\<close>

section \<open>Rounding to binary64\<close>

lemma bitlen_rat_bounds:
  assumes "0 < a"
  shows "(2::rat) powi (bitlen a - 1) \<le> of_int a" "of_int a < (2::rat) powi (bitlen a)"
proof -
  have b1: "1 \<le> bitlen a" using assms bitlen_eq_zero_iff [of a] bitlen_nonneg [of a] by linarith
  have "(2::int) ^ nat (bitlen a - 1) \<le> a" "a < 2 ^ nat (bitlen a)"
    using bitlen_bounds [OF assms] by simp_all
  then have "of_int ((2::int) ^ nat (bitlen a - 1)) \<le> (of_int a :: rat)"
    "(of_int a :: rat) < of_int (2 ^ nat (bitlen a))"
    by (simp_all only: of_int_le_iff of_int_less_iff)
  then show "(2::rat) powi (bitlen a - 1) \<le> of_int a" "of_int a < (2::rat) powi (bitlen a)"
    using b1 by (simp_all add: power_int_def)
qed

lemma rat_exponent_bounds:
  assumes "0 < x"
  shows "2 powi (rat_exponent x) \<le> x" "x < 2 powi (rat_exponent x + 1)"
proof -
  obtain a b where q: "quotient_of x = (a, b)" by (cases "quotient_of x")
  have b: "0 < b" using q by (rule quotient_of_denom_pos)
  have x: "x = of_int a / of_int b" using q by (rule quotient_of_div)
  have a: "0 < a" using assms b x by (simp add: zero_less_divide_iff)
  let ?e0 = "bitlen a - bitlen b"
  have ub: "x < 2 powi (?e0 + 1)"
  proof -
    have "of_int a < (2::rat) powi (bitlen a)" using bitlen_rat_bounds(2) [OF a] .
    moreover have "(2::rat) powi (bitlen b - 1) \<le> of_int b" using bitlen_rat_bounds(1) [OF b] .
    ultimately have "of_int a * (2::rat) powi (bitlen b - 1) < 2 powi (bitlen a) * of_int b"
      using a b by (intro mult_less_le_imp_less) simp_all
    then have "x < 2 powi (bitlen a) / 2 powi (bitlen b - 1)"
      using b by (simp add: x field_simps)
    also have "\<dots> = 2 powi (?e0 + 1)"
      by (simp flip: power_int_diff add: algebra_simps)
    finally show ?thesis .
  qed
  have lb: "2 powi (?e0 - 1) \<le> x"
  proof -
    have "(2::rat) powi (bitlen a - 1) \<le> of_int a" using bitlen_rat_bounds(1) [OF a] .
    moreover have "of_int b < (2::rat) powi (bitlen b)" using bitlen_rat_bounds(2) [OF b] .
    ultimately have "(2::rat) powi (bitlen a - 1) * of_int b \<le> of_int a * 2 powi (bitlen b)"
      using a b by (intro mult_mono) simp_all
    then have "2 powi (bitlen a - 1) / 2 powi (bitlen b) \<le> x"
      using b by (simp add: x field_simps)
    moreover have "(2::rat) powi (bitlen a - 1) / 2 powi (bitlen b) = 2 powi (?e0 - 1)"
      by (simp flip: power_int_diff add: algebra_simps)
    ultimately show ?thesis by simp
  qed
  have e: "rat_exponent x = (if 2 powi ?e0 \<le> x then ?e0 else ?e0 - 1)"
    by (simp add: rat_exponent_def q Let_def)
  show "2 powi (rat_exponent x) \<le> x" using lb by (simp add: e)
  show "x < 2 powi (rat_exponent x + 1)" using ub by (auto simp: e not_le)
qed

lemma rat_exponent_eqI:
  assumes "2 powi e \<le> x" "x < 2 powi (e + 1)"
  shows "rat_exponent x = e"
proof -
  have pos: "0 < x" using assms(1) by (rule less_le_trans [rotated]) simp
  note bs = rat_exponent_bounds [OF pos]
  have "(2::rat) powi e < 2 powi (rat_exponent x + 1)" using assms(1) bs(2) by simp
  then have "e < rat_exponent x + 1"
    by (metis not_less one_less_numeral_iff power_int_increasing semiring_norm(76) less_imp_le)
  moreover have "(2::rat) powi (rat_exponent x) < 2 powi (e + 1)" using assms(2) bs(1) by simp
  then have "rat_exponent x < e + 1"
    by (metis not_less one_less_numeral_iff power_int_increasing semiring_norm(76) less_imp_le)
  ultimately show ?thesis by simp
qed

lemma round_half_even_ge: "of_int i \<le> y \<Longrightarrow> i \<le> round_half_even y"
proof -
  assume "of_int i \<le> y"
  then have "i \<le> \<lfloor>y\<rfloor>" by (simp add: le_floor_iff)
  then show ?thesis by (auto simp: round_half_even_def Let_def)
qed

lemma round_half_even_le: "y \<le> of_int i \<Longrightarrow> round_half_even y \<le> i"
proof -
  assume y: "y \<le> of_int i"
  have f: "\<lfloor>y\<rfloor> \<le> i" using y by (simp add: floor_le_iff) 
  have "\<lfloor>y\<rfloor> + 1 \<le> i" if "1 / 2 \<le> y - of_int \<lfloor>y\<rfloor>"
  proof -
    have "of_int \<lfloor>y\<rfloor> < y" using that by simp
    then have "of_int \<lfloor>y\<rfloor> < (of_int i :: rat)" using y by linarith
    then have "\<lfloor>y\<rfloor> < i" by (simp only: of_int_less_iff)
    then show ?thesis by simp
  qed
  then show ?thesis using f by (auto simp: round_half_even_def Let_def not_less)
qed

lemma round_half_even_less: "y < of_int i - 1 / 2 \<Longrightarrow> round_half_even y < i"
proof -
  assume y: "y < of_int i - 1 / 2"
  have "of_int \<lfloor>y\<rfloor> \<le> y" by simp
  then have "of_int \<lfloor>y\<rfloor> < (of_int i :: rat)" using y by linarith
  then have f: "\<lfloor>y\<rfloor> < i" by (simp only: of_int_less_iff)
  have "\<lfloor>y\<rfloor> + 1 < i" if "1 / 2 \<le> y - of_int \<lfloor>y\<rfloor>"
  proof -
    have "of_int \<lfloor>y\<rfloor> + 1 < (of_int i :: rat)" using that y by linarith
    then have "of_int (\<lfloor>y\<rfloor> + 1) < (of_int i :: rat)" by (simp only: of_int_add of_int_1)
    then show ?thesis by (simp only: of_int_less_iff)
  qed
  then show ?thesis using f by (auto simp: round_half_even_def Let_def not_less)
qed

lemma round_half_even_of_int [simp]: "round_half_even (of_int i) = i"
  by (simp add: round_half_even_def)

lemma round_to_double_pos:
  "0 < x \<Longrightarrow> round_to_double x =
      of_int (round_half_even (x / 2 powi max (rat_exponent x - 52) (- 1074)))
        * 2 powi max (rat_exponent x - 52) (- 1074)"
  by (simp add: round_to_double_def Let_def)

lemma round_to_double_minus: "round_to_double (- x) = - round_to_double x"
  by (simp add: round_to_double_def Let_def sgn_minus)

lemma floor_round_to_double_div:
  assumes n: "0 \<le> n" "n < 2 ^ 53" and d: "0 < d"
  shows "\<lfloor>round_to_double (of_int n / of_int d)\<rfloor> = n div d"
proof (cases "n = 0")
  case True
  then show ?thesis by (simp add: round_to_double_def)
next
  case False
  define x :: rat where "x = of_int n / of_int d"
  define k where "k = n div d"
  define e where "e = rat_exponent x"
  define s where "s = max (e - 52) (- 1074)"
  define m where "m = round_half_even (x / 2 powi s)"
  have xpos: "0 < x" using False n d by (simp add: x_def)
  have r: "round_to_double x = of_int m * 2 powi s"
    using round_to_double_pos [OF xpos] by (simp add: m_def s_def e_def)
  have lo: "2 powi e \<le> x" and hi: "x < 2 powi (e + 1)"
    using rat_exponent_bounds [OF xpos] by (simp_all add: e_def)
  have kx: "of_int k \<le> x"
    unfolding k_def x_def by (metis floor_divide_of_int_eq of_int_floor_le)
  have xk: "x \<le> of_int k + 1 - 1 / of_int d"
  proof -
    have "n = d * k + n mod d" by (simp add: k_def)
    moreover have "n mod d \<le> d - 1" using d pos_mod_bound [of d n] by simp
    ultimately have "n \<le> d * k + d - 1" by linarith
    then have "(of_int n :: rat) \<le> of_int (d * k + d - 1)" by (simp only: of_int_le_iff)
    moreover have "(of_int k + 1 - 1 / of_int d) * (of_int d :: rat) = of_int (d * k + d - 1)"
      using d by (simp add: field_simps)
    ultimately have "(of_int n :: rat) \<le> (of_int k + 1 - 1 / of_int d) * of_int d" by simp
    then show ?thesis using d by (simp only: x_def pos_divide_le_eq of_int_0_less_iff)
  qed
  have xn: "x \<le> of_int n"
  proof -
    have "(1::rat) \<le> of_int d" using d by simp
    then have "of_int n * (1::rat) \<le> of_int n * of_int d" using n by (intro mult_left_mono) simp_all
    then show ?thesis using d unfolding x_def by (simp add: field_simps)
  qed
  have "(of_int n :: rat) < of_int (2 ^ 53)" using n by (simp only: of_int_less_iff)
  then have n53: "(of_int n :: rat) < 2 powi 53" by simp
  have e52: "e \<le> 52"
  proof -
    have "(2::rat) powi e < 2 powi 53" using lo xn n53 by linarith
    then have "e < 53"
      by (metis not_less one_less_numeral_iff power_int_increasing semiring_norm(76) less_imp_le)
    then show ?thesis by simp
  qed
  have s0: "s \<le> 0" using e52 by (simp add: s_def)
  define P :: int where "P = 2 ^ nat (- s)"
  have Ppos: "0 < P" by (simp add: P_def)
  have u: "(2::rat) powi s = 1 / of_int P"
    using s0 by (simp add: P_def power_int_def field_simps)
  have y: "x / 2 powi s = x * of_int P" by (simp add: u)
  have r': "round_to_double x = of_int m / of_int P" by (simp add: r u)
  have mlo: "k * P \<le> m"
  proof -
    have "of_int (k * P) \<le> x * of_int P" using kx Ppos by (simp add: mult_right_mono)
    then show ?thesis unfolding m_def y by (rule round_half_even_ge)
  qed
  have mhi: "m < (k + 1) * P"
  proof (cases "e - 52 \<ge> - 1074")
    case True
    then have s: "s = e - 52" by (simp add: s_def)
    have "of_int d * (2::rat) powi e \<le> of_int n" using lo d by (simp add: x_def field_simps)
    then have "of_int d * (2::rat) powi e < 2 powi 53" using n53 by simp
    then have "of_int d * (2::rat) powi e * 2 powi (- e) < 2 powi 53 * 2 powi (- e)"
      by (intro mult_strict_right_mono) simp_all
    then have "(of_int d :: rat) < 2 powi (53 - e)"
      by (simp add: power_int_diff power_int_minus field_simps)
    also have "(2::rat) powi (53 - e) = 2 * 2 powi (- s)"
      by (simp add: s power_int_diff power_int_minus field_simps)
    also have "(2::rat) powi (- s) = of_int P"
      using s0 by (simp add: P_def power_int_def)
    finally have dP: "(of_int d :: rat) < 2 * of_int P" .
    define q :: rat where "q = of_int P / of_int d"
    have h1: "1 / 2 < q" using dP d by (simp add: q_def field_simps)
    have "x * of_int P \<le> (of_int k + 1 - 1 / of_int d) * of_int P"
      using xk Ppos by (simp add: mult_right_mono)
    also have "(of_int k + 1 - 1 / of_int d) * of_int P = of_int ((k + 1) * P) - q"
      by (simp add: q_def algebra_simps)
    finally have "x * of_int P < of_int ((k + 1) * P) - 1 / 2" using h1 by linarith
    then show ?thesis unfolding m_def y by (rule round_half_even_less)
  next
    case False
    then have s: "s = - 1074" and e: "e + 1 \<le> - 1022" by (simp_all add: s_def)
    have "(2::rat) powi (e + 1) \<le> 2 powi (- 1022)"
      using e by (intro power_int_increasing) simp_all
    then have x1022: "x < 2 powi (- 1022)" using hi by simp
    then have "x * 2 powi 1074 < 2 powi (- 1022) * 2 powi 1074"
      by (intro mult_strict_right_mono) simp_all
    also have "(2::rat) powi (- 1022) * 2 powi 1074 = 2 powi 52"
      by (simp flip: power_int_add)
    finally have "x / 2 powi s \<le> of_int (2 ^ 52)"
      by (simp add: s power_int_minus field_simps)
    then have m52: "m \<le> 2 ^ 52" unfolding m_def by (rule round_half_even_le)
    have "(2::rat) powi (- 1022) \<le> 2 powi 0" by (intro power_int_increasing) simp_all
    then have "x < 1" using x1022 by simp
    then have "k = 0" using kx xpos unfolding k_def x_def
      by (metis floor_divide_of_int_eq floor_eq_iff less_eq_rat_def of_int_0 x_def add.left_neutral)
    have "(2::int) ^ 52 < 2 ^ 1074" by (intro power_strict_increasing) simp_all
    then have "m < P" using m52 by (simp add: P_def s)
    then show ?thesis using \<open>k = 0\<close> by simp
  qed
  have "of_int k \<le> round_to_double x"
  proof -
    have "(of_int (k * P) :: rat) \<le> of_int m" using mlo by (simp only: of_int_le_iff)
    then show ?thesis using Ppos by (simp add: r' field_simps)
  qed
  moreover have "round_to_double x < of_int k + 1"
  proof -
    have "(of_int m :: rat) < of_int ((k + 1) * P)" using mhi by (simp only: of_int_less_iff)
    then show ?thesis using Ppos by (simp add: r' field_simps)
  qed
  ultimately have "\<lfloor>round_to_double x\<rfloor> = k" by (simp add: floor_unique)
  then show ?thesis by (simp add: x_def k_def)
qed

lemma round_to_double_exact:
  assumes n: "\<bar>n\<bar> < 2 ^ 53" and j: "- 1074 \<le> j"
  shows "round_to_double (of_int n * 2 powi j) = of_int n * 2 powi j"
proof (cases "n = 0")
  case True
  then show ?thesis by (simp add: round_to_double_def)
next
  case False
  define x :: rat where "x = of_int n * 2 powi j"
  define e where "e = rat_exponent \<bar>x\<bar>"
  define s where "s = max (e - 52) (- 1074)"
  have ax: "\<bar>x\<bar> = of_int \<bar>n\<bar> * 2 powi j" by (simp add: x_def abs_mult)
  have xpos: "0 < \<bar>x\<bar>" using False by (simp add: x_def)
  have lo: "2 powi e \<le> \<bar>x\<bar>" using rat_exponent_bounds(1) [OF xpos] by (simp add: e_def)
  have "(of_int \<bar>n\<bar> :: rat) < of_int (2 ^ 53)" using n by (simp only: of_int_less_iff)
  then have "(of_int \<bar>n\<bar> :: rat) * 2 powi j < 2 powi 53 * 2 powi j"
    by (intro mult_strict_right_mono) simp_all
  also have "(2::rat) powi 53 * 2 powi j = 2 powi (53 + j)" by (simp add: power_int_add)
  finally have "(2::rat) powi e < 2 powi (53 + j)" using lo ax by simp
  then have "e < 53 + j"
    by (metis not_less one_less_numeral_iff power_int_increasing semiring_norm(76) less_imp_le)
  then have sj: "s \<le> j" using j by (simp add: s_def)
  have "\<bar>x\<bar> / 2 powi s = of_int \<bar>n\<bar> * 2 powi (j - s)"
    by (simp add: ax power_int_diff)
  also have "\<dots> = of_int (\<bar>n\<bar> * 2 ^ nat (j - s))"
    using sj by (simp add: power_int_def)
  finally have "round_half_even (\<bar>x\<bar> / 2 powi s) = \<bar>n\<bar> * 2 ^ nat (j - s)"
    by (simp only: round_half_even_of_int)
  then have "round_to_double x = sgn x * of_int (\<bar>n\<bar> * 2 ^ nat (j - s)) * 2 powi s"
    using xpos by (simp add: round_to_double_def Let_def s_def e_def)
  also have "of_int (\<bar>n\<bar> * 2 ^ nat (j - s)) = of_int \<bar>n\<bar> * (2::rat) powi (j - s)"
    using sj by (simp add: power_int_def)
  also have "sgn x * (of_int \<bar>n\<bar> * (2::rat) powi (j - s)) * 2 powi s = sgn x * \<bar>x\<bar>"
    by (simp add: ax power_int_diff)
  also have "sgn x * \<bar>x\<bar> = x" by (rule sgn_mult_abs)
  finally show ?thesis by (simp add: x_def)
qed

lemma int_truediv_floor:
  assumes "0 \<le> n" "n < 2 ^ 53" "0 < d"
  shows "\<exists>q. int_truediv n d = Inr q \<and> py_int q = n div d \<and> math_floor q = n div d"
proof -
  define r where "r = round_to_double (of_int n / of_int d)"
  have fl: "\<lfloor>r\<rfloor> = n div d"
    unfolding r_def using assms by (rule floor_round_to_double_div)
  have "0 \<le> n div d" using assms by (simp add: pos_imp_zdiv_nonneg_iff)
  then have "0 \<le> \<lfloor>r\<rfloor>" using fl by simp
  then have r0: "0 \<le> r" by simp
  have "n div d \<le> n div 1" using assms by (intro zdiv_mono2) simp_all
  then have "n div d \<le> n" by simp
  then have "\<lfloor>r\<rfloor> < 2 ^ 53" using fl assms(2) by linarith
  then have "r < of_int (2 ^ 53)" by (simp only: floor_less_iff)
  moreover have "(of_int (2 ^ 53) :: rat) < 2 ^ 1024" by simp
  ultimately have "is_finite_double r" using r0 by (simp add: is_finite_double_def)
  then have "int_truediv n d = Inr r"
    using assms(3) by (simp add: int_truediv_def r_def Let_def)
  then show ?thesis using fl r0 by (simp add: py_int_def math_floor_def)
qed

section \<open>Activation queue\<close>

text \<open>C5, as amended. With a positive quotient and a non-negative cap, the churn is
  \<open>min cap (n_active div quotient)\<close> for every non-negative \<open>n_active\<close>. The duration divides
  as floats and truncates, \<open>int(n_pending / churn)\<close>: for \<open>0 \<le> n_pending < 2 ^ 53\<close> that is the
  floor division, so the duration is \<open>(n_pending div churn) * SECONDS_PER_EPOCH\<close>, and a zero
  churn raises \<open>ZeroDivisionError\<close>.\<close>

theorem compute_activation_duration_spec:
  assumes "0 < CHURN_LIMIT_QUOTIENT cfg" and "0 \<le> MAX_PER_EPOCH_ACTIVATION_CHURN_LIMIT cfg"
    and "0 \<le> n_active" and "0 \<le> n_pending" and "n_pending < 2 ^ 53"
  shows "get_activation_churn cfg n_active
           = Inr (min (MAX_PER_EPOCH_ACTIVATION_CHURN_LIMIT cfg)
                    (n_active div CHURN_LIMIT_QUOTIENT cfg))
       \<and> compute_activation_duration cfg n_active n_pending
           = (let churn = min (MAX_PER_EPOCH_ACTIVATION_CHURN_LIMIT cfg)
                            (n_active div CHURN_LIMIT_QUOTIENT cfg)
              in if churn = 0 then Inl ZeroDivisionError
                 else Inr (n_pending div churn * SECONDS_PER_EPOCH cfg))"
proof -
  define churn where
    "churn = min (MAX_PER_EPOCH_ACTIVATION_CHURN_LIMIT cfg) (n_active div CHURN_LIMIT_QUOTIENT cfg)"
  have c: "get_activation_churn cfg n_active = Inr churn"
    using assms(1) by (simp add: get_activation_churn_def py_floordiv_def churn_def)
  have "0 \<le> n_active div CHURN_LIMIT_QUOTIENT cfg"
    using assms(1,3) by (simp add: pos_imp_zdiv_nonneg_iff)
  then have c0: "0 \<le> churn" using assms(2) by (simp add: churn_def)
  have "compute_activation_duration cfg n_active n_pending
      = (if churn = 0 then Inl ZeroDivisionError
         else Inr (n_pending div churn * SECONDS_PER_EPOCH cfg))"
  proof (cases "churn = 0")
    case True
    then show ?thesis by (simp add: compute_activation_duration_def c int_truediv_def)
  next
    case False
    then have "0 < churn" using c0 by simp
    then obtain q where "int_truediv n_pending churn = Inr q" "py_int q = n_pending div churn"
      using int_truediv_floor [OF assms(4,5)] by blast
    then show ?thesis using False by (simp add: compute_activation_duration_def c)
  qed
  then show ?thesis using c by (simp add: churn_def Let_def)
qed

theorem compute_activation_duration_spec_witness:
  "0 < CHURN_LIMIT_QUOTIENT spec_config \<and> 0 \<le> MAX_PER_EPOCH_ACTIVATION_CHURN_LIMIT spec_config
   \<and> (0::int) \<le> 500000 \<and> (0::int) \<le> 1000 \<and> (1000::int) < 2 ^ 53
   \<and> get_activation_churn spec_config 500000 = Inr 7
   \<and> compute_activation_duration spec_config 500000 1000 = Inr (142 * SECONDS_PER_EPOCH spec_config)
   \<and> SECONDS_PER_EPOCH spec_config = 384
   \<and> compute_activation_duration spec_config 0 1000 = Inl ZeroDivisionError"
proof -
  have h: "0 < CHURN_LIMIT_QUOTIENT spec_config"
    "0 \<le> MAX_PER_EPOCH_ACTIVATION_CHURN_LIMIT spec_config"
    "(0::int) \<le> 500000" "(0::int) \<le> 0" "(0::int) \<le> 1000" "(1000::int) < 2 ^ 53"
    by (simp_all add: spec_config_def)
  show ?thesis
    using h compute_activation_duration_spec [OF h(1,2,3,5,6)]
      compute_activation_duration_spec [OF h(1,2,4,5,6)]
    by (simp add: spec_config_def SECONDS_PER_EPOCH_def)
qed

text \<open>The claim as stated fails beyond 53 bits: with churn 1, a queue of \<open>2 ^ 53 + 1\<close> validators
  gives \<open>2 ^ 53\<close> epochs, because the quotient is rounded to a float before it is truncated.\<close>

theorem compute_activation_duration_counterexample:
  "compute_activation_duration spec_config 65536 9007199254740993
     = Inr (9007199254740992 * SECONDS_PER_EPOCH spec_config)
   \<and> 9007199254740993 div
        min (MAX_PER_EPOCH_ACTIVATION_CHURN_LIMIT spec_config)
          (65536 div CHURN_LIMIT_QUOTIENT spec_config) * SECONDS_PER_EPOCH spec_config
     \<noteq> 9007199254740992 * SECONDS_PER_EPOCH spec_config"
  by code_simp

section \<open>Bit utilities\<close>

subsection \<open>Trailing-delimiter trim\<close>

lemma first_true_index_replicate:
  "first_true_index (replicate k False @ True # ys) = Inr k"
  by (induction k) simp_all

lemma first_true_index_all_false:
  "True \<notin> set xs \<Longrightarrow> first_true_index xs = Inl StopIteration"
  by (induction xs) auto

lemma all_false_replicate: "True \<notin> set zs \<Longrightarrow> zs = replicate (length zs) False"
  by (induction zs) auto

lemma delete_zero_bits_split:
  "delete_zero_bits (pre @ True # replicate k False) = Inr pre"
proof -
  have "rev (pre @ True # replicate k False) = replicate k False @ True # rev pre"
    by simp
  then have "first_true_index (rev (pre @ True # replicate k False)) = Inr k"
    by (simp only: first_true_index_replicate)
  then show ?thesis
    by (simp add: delete_zero_bits_def slice_to_def Let_def)
qed

text \<open>C6. A vector with at least one true bit is cut to the prefix that ends just before its
  last true bit: the result is \<open>take p bits\<close> where \<open>p\<close> is the position of a true bit with
  only false bits after it. A vector with no true bit (the empty one included) raises
  \<open>StopIteration\<close>.\<close>

theorem delete_zero_bits_spec:
  "(True \<in> set bits \<longrightarrow>
      (\<exists>p < length bits. bits ! p \<and> (\<forall>j. p < j \<and> j < length bits \<longrightarrow> \<not> bits ! j)
          \<and> delete_zero_bits bits = Inr (take p bits)))
   \<and> (True \<notin> set bits \<longrightarrow> delete_zero_bits bits = Inl StopIteration)"
proof (intro conjI impI)
  assume "True \<in> set bits"
  then obtain pre zs where split: "bits = pre @ True # zs" and "True \<notin> set zs"
    by (meson split_list_last)
  then have zs: "zs = replicate (length zs) False"
    by (simp add: all_false_replicate)
  have res: "delete_zero_bits bits = Inr pre"
    using delete_zero_bits_split [of pre "length zs"] split zs by simp
  have "\<forall>j. length pre < j \<and> j < length bits \<longrightarrow> \<not> bits ! j"
  proof (intro allI impI)
    fix j assume j: "length pre < j \<and> j < length bits"
    then have "bits ! j = zs ! (j - length pre - 1)"
      using split by (simp add: nth_append nth_Cons')
    moreover have "j - length pre - 1 < length zs" using j split by auto
    ultimately show "\<not> bits ! j" using \<open>True \<notin> set zs\<close> by (metis (full_types) nth_mem)
  qed
  moreover have "length pre < length bits" "bits ! length pre" "take (length pre) bits = pre"
    using split by simp_all
  ultimately show "\<exists>p < length bits. bits ! p \<and> (\<forall>j. p < j \<and> j < length bits \<longrightarrow> \<not> bits ! j)
          \<and> delete_zero_bits bits = Inr (take p bits)"
    using res by metis
next
  assume "True \<notin> set bits"
  then have "True \<notin> set (rev bits)" by simp
  then show "delete_zero_bits bits = Inl StopIteration"
    by (simp add: delete_zero_bits_def first_true_index_all_false)
qed

theorem delete_zero_bits_spec_witness:
  "True \<in> set [False, True, False, True, True, False]
   \<and> delete_zero_bits [False, True, False, True, True, False] = Inr [False, True, False, True]
   \<and> True \<notin> set [False, False]
   \<and> delete_zero_bits [False, False] = Inl StopIteration"
  using delete_zero_bits_spec [of "[False, True, False, True, True, False]"]
    delete_zero_bits_spec [of "[False, False]"]
  by (simp add: delete_zero_bits_def slice_to_def)

subsection \<open>Aggregation\<close>

lemma fold_min_same: "\<forall>x \<in> set xs. x = n \<Longrightarrow> fold min xs n = (n::nat)"
  by (induction xs) auto

lemma distinct_singleton: "distinct xs \<Longrightarrow> set xs = {a} \<Longrightarrow> xs = [a]"
  by (cases xs) (auto simp: subset_singleton_iff)

lemma zip_star_equal_length:
  assumes "ls \<noteq> []" "\<forall>v \<in> set ls. length v = n"
  shows "zip_star ls = map (\<lambda>i. map (\<lambda>w. w ! i) ls) [0..<n]"
proof -
  obtain v vs where ls: "ls = v # vs" using assms(1) by (cases ls) auto
  have "fold min (map length vs) (length v) = n"
    using assms(2) ls fold_min_same [of "map length vs" n] by auto
  then show ?thesis by (simp add: zip_star_def ls)
qed

lemma remdups_equal_length:
  assumes "ls \<noteq> []" "\<forall>v \<in> set ls. length v = n"
  shows "remdups (map length ls) = [n]"
proof -
  have "set (remdups (map length ls)) = {n}" using assms by (cases ls) auto
  then show ?thesis by (intro distinct_singleton) simp_all
qed

lemma aggregate_bits_equal_length:
  assumes "ls \<noteq> []" "\<forall>v \<in> set ls. length v = n"
  shows "aggregate_bits ls = Inr (map (\<lambda>i. \<exists>v \<in> set ls. v ! i) [0..<n])"
  using assms
  by (simp add: aggregate_bits_def remdups_equal_length [OF assms] zip_star_equal_length [OF assms]
      py_any_def list_ex_iff comp_def)

lemma aggregate_bits_empty: "aggregate_bits [] = Inl ValueError"
  by (simp add: aggregate_bits_def)

lemma aggregate_bits_mismatch:
  assumes "v \<in> set ls" "w \<in> set ls" "length v \<noteq> length w"
  shows "aggregate_bits ls = Inl ValueError"
proof -
  let ?r = "remdups (map length ls)"
  have mem: "length v \<in> set ?r" "length w \<in> set ?r" using assms by auto
  show ?thesis
  proof (cases ?r)
    case Nil
    then show ?thesis using mem by simp
  next
    case (Cons a trash)
    have "trash \<noteq> []"
    proof
      assume "trash = []"
      then have "set ?r = {a}" using Cons by simp
      then have "length v = a" "length w = a" using mem by blast+
      then show False using assms(3) by simp
    qed
    then show ?thesis using Cons by (simp add: aggregate_bits_def)
  qed
qed

lemma aggregate_bits_perm:
  assumes "mset ls = mset ls'"
  shows "aggregate_bits ls = aggregate_bits ls'"
proof -
  have s: "set ls = set ls'" using assms by (rule mset_eq_setD)
  consider "ls = []" | "ls \<noteq> []" "\<forall>v \<in> set ls. length v = length (hd ls)"
    | v w where "v \<in> set ls" "w \<in> set ls" "length v \<noteq> length w"
    by (metis hd_in_set)
  then show ?thesis
  proof cases
    case 1
    then show ?thesis using assms by simp
  next
    case 2
    then have "ls' \<noteq> []" "\<forall>v \<in> set ls'. length v = length (hd ls)" using s by auto
    then show ?thesis
      using aggregate_bits_equal_length [OF 2] aggregate_bits_equal_length [of ls' "length (hd ls)"] s
      by simp
  next
    case 3
    then show ?thesis
      using aggregate_bits_mismatch [of v ls w] aggregate_bits_mismatch [of v ls' w] s by simp
  qed
qed

lemma aggregate_bits_single: "aggregate_bits [v] = Inr v"
proof -
  have "aggregate_bits [v] = Inr (map (\<lambda>i. \<exists>w \<in> set [v]. w ! i) [0..<length v])"
    by (rule aggregate_bits_equal_length) simp_all
  also have "map (\<lambda>i. \<exists>w \<in> set [v]. w ! i) [0..<length v] = v"
    by (simp add: map_nth)
  finally show ?thesis .
qed

lemma aggregate_bits_all_false: "aggregate_bits [v, replicate (length v) False] = Inr v"
proof -
  have "aggregate_bits [v, replicate (length v) False]
      = Inr (map (\<lambda>i. \<exists>w \<in> set [v, replicate (length v) False]. w ! i) [0..<length v])"
    by (rule aggregate_bits_equal_length) simp_all
  also have "map (\<lambda>i. \<exists>w \<in> set [v, replicate (length v) False]. w ! i) [0..<length v] = v"
    by (rule nth_equalityI) simp_all
  finally show ?thesis .
qed

lemma aggregate_bits_regroup:
  assumes "xs \<noteq> []" "ys \<noteq> []" "\<forall>v \<in> set (xs @ ys). length v = n"
  shows "\<exists>a b. aggregate_bits xs = Inr a \<and> aggregate_bits ys = Inr b
           \<and> aggregate_bits [a, b] = aggregate_bits (xs @ ys)"
proof -
  let ?a = "map (\<lambda>i. \<exists>v \<in> set xs. v ! i) [0..<n]"
  let ?b = "map (\<lambda>i. \<exists>v \<in> set ys. v ! i) [0..<n]"
  have a: "aggregate_bits xs = Inr ?a" using assms by (intro aggregate_bits_equal_length) auto
  have b: "aggregate_bits ys = Inr ?b" using assms by (intro aggregate_bits_equal_length) auto
  have "aggregate_bits [?a, ?b] = Inr (map (\<lambda>i. \<exists>v \<in> set [?a, ?b]. v ! i) [0..<n])"
    by (rule aggregate_bits_equal_length) simp_all
  also have "map (\<lambda>i. \<exists>v \<in> set [?a, ?b]. v ! i) [0..<n]
      = map (\<lambda>i. \<exists>v \<in> set (xs @ ys). v ! i) [0..<n]"
    by (rule nth_equalityI) auto
  also have "Inr \<dots> = aggregate_bits (xs @ ys)"
    using assms by (intro aggregate_bits_equal_length [symmetric]) auto
  finally show ?thesis using a b by blast
qed

text \<open>C7. On a non-empty list of vectors of one length \<open>n\<close>, \<open>aggregate_bits\<close> returns the
  vector whose bit \<open>i\<close> is the disjunction of the bits \<open>i\<close> of all the vectors; two vectors of
  different lengths give \<open>ValueError\<close>; a single vector is returned as it is; an all-false
  vector of equal length is neutral; the result is the same for every permutation of the input
  (commutativity), and aggregating the aggregates of two groups equals aggregating all the
  vectors at once (associativity), when all lengths are equal.\<close>

theorem aggregate_bits_spec:
  "(ls \<noteq> [] \<and> (\<forall>v \<in> set ls. length v = n) \<longrightarrow>
      aggregate_bits ls = Inr (map (\<lambda>i. \<exists>v \<in> set ls. v ! i) [0..<n]))
   \<and> (v \<in> set ls \<and> w \<in> set ls \<and> length v \<noteq> length w \<longrightarrow> aggregate_bits ls = Inl ValueError)
   \<and> aggregate_bits [v] = Inr v
   \<and> aggregate_bits [v, replicate (length v) False] = Inr v
   \<and> (mset ls = mset ls' \<longrightarrow> aggregate_bits ls = aggregate_bits ls')
   \<and> (xs \<noteq> [] \<and> ys \<noteq> [] \<and> (\<forall>v \<in> set (xs @ ys). length v = n) \<longrightarrow>
        (\<exists>a b. aggregate_bits xs = Inr a \<and> aggregate_bits ys = Inr b
           \<and> aggregate_bits [a, b] = aggregate_bits (xs @ ys)))"
  using aggregate_bits_equal_length [of ls n] aggregate_bits_mismatch [of v ls w]
    aggregate_bits_single [of v] aggregate_bits_all_false [of v]
    aggregate_bits_perm [of ls ls'] aggregate_bits_regroup [of xs ys n]
  by blast


theorem aggregate_bits_spec_witness:
  "[[False, False, True], [False, True, False]] \<noteq> []
   \<and> aggregate_bits [[False, False, True], [False, True, False]] = Inr [False, True, True]
   \<and> [False, False] \<in> set [[False, False], [False, True, False]]
   \<and> length [False, False] \<noteq> length [False, True, False]
   \<and> aggregate_bits [[False, False], [False, True, False]] = Inl ValueError
   \<and> aggregate_bits [[True, False]] = Inr [True, False]
   \<and> aggregate_bits [[True, False], [False, False]] = Inr [True, False]
   \<and> mset [[False, False, True], [False, True, False]] = mset [[False, True, False], [False, False, True]]
   \<and> aggregate_bits [[False, True, False], [False, False, True]] = Inr [False, True, True]
   \<and> aggregate_bits [[True, False]] = Inr [True, False]
   \<and> aggregate_bits [[False, False], [False, True]] = Inr [False, True]
   \<and> aggregate_bits [[True, False], [False, True]]
       = aggregate_bits ([[True, False]] @ [[False, False], [False, True]])"
  using aggregate_bits_spec [of "[[False, False, True], [False, True, False]]" 3
      "[True, False]" "[False, True]" "[[False, True, False], [False, False, True]]" "[]" "[]"]
    aggregate_bits_spec [of "[[False, False], [False, True, False]]" 2
      "[False, False]" "[False, True, False]" "[]" "[[True, False]]" "[[False, False], [False, True]]"]
  by (simp add: aggregate_bits_def zip_star_def py_any_def upt_rec)
section \<open>Bounded epoch cache\<close>

text \<open>C3 fails for the retention limit 0, which the constructor accepts: the slice bound
  \<open>- 0\<close> is \<open>0\<close>, so \<open>sorted(self.__dict)[:0]\<close> is empty and nothing is ever evicted. After one
  insertion the cache of limit 0 holds one entry.\<close>

theorem LimitedDict_limit_zero:
  "LimitedDict_init 0 = Inr \<lparr> max_size = 0, dict = [] \<rparr>
   \<and> dict (LimitedDict_setitem \<lparr> max_size = 0, dict = [] \<rparr> 1 v) = [(1, v)]
   \<and> LimitedDict_len (LimitedDict_setitem \<lparr> max_size = 0, dict = [] \<rparr> 1 v) = 1
   \<and> LimitedDict_len (LimitedDict_inserts \<lparr> max_size = 0, dict = [] \<rparr> [(1, v), (2, v), (3, v)]) = 3"
  by (simp add: LimitedDict_init_def LimitedDict_setitem_def LimitedDict_len_def
      LimitedDict_inserts_def slice_to_def)

section \<open>Slashed validators\<close>

lemma ValidatorsSlashed_process_first:
  "state_after (ValidatorsSlashed_process ValidatorsSlashed_init t_exited o_exited t_wd o_wd)
     = \<lparr> total_exited_slashed_indexes = Some (dom t_exited),
         own_exited_slashed_indexes = Some (dom o_exited) \<rparr>
   \<and> raised (ValidatorsSlashed_process ValidatorsSlashed_init t_exited o_exited t_wd o_wd) = None"
  by (simp add: ValidatorsSlashed_process_def ValidatorsSlashed_init_def Let_def)

lemma ValidatorsSlashed_process_primed:
  assumes "total_exited_slashed_indexes st = Some total_before"
    and "own_exited_slashed_indexes st = Some own_before"
    and "(dom t_exited - total_before) - (dom o_exited - own_before) \<noteq> {}"
  shows "raised (ValidatorsSlashed_process st t_exited o_exited t_wd o_wd) = Some TypeError"
    and "state_after (ValidatorsSlashed_process st t_exited o_exited t_wd o_wd) = st"
    and "own_slashed_alerts (ValidatorsSlashed_process st t_exited o_exited t_wd o_wd) = {}"
  using assms by (simp_all add: ValidatorsSlashed_process_def Let_def)

text \<open>C10. The first call on a fresh tracker raises nothing and remembers the two index sets.
  On a tracker that remembers \<open>total_before\<close> and \<open>own_before\<close>, a call whose network
  exited-slashed indices hold a new index that is not a new own exited-slashed index raises
  \<open>TypeError\<close>, reports nothing, and leaves the remembered sets as they were.\<close>

theorem ValidatorsSlashed_process_type_error:
  "raised (ValidatorsSlashed_process ValidatorsSlashed_init t0 o0 tw0 ow0) = None
   \<and> state_after (ValidatorsSlashed_process ValidatorsSlashed_init t0 o0 tw0 ow0)
       = \<lparr> total_exited_slashed_indexes = Some (dom t0),
           own_exited_slashed_indexes = Some (dom o0) \<rparr>
   \<and> (total_exited_slashed_indexes st = Some total_before
        \<and> own_exited_slashed_indexes st = Some own_before
        \<and> index \<in> dom t_exited \<and> index \<notin> total_before
        \<and> \<not> (index \<in> dom o_exited \<and> index \<notin> own_before)
      \<longrightarrow> raised (ValidatorsSlashed_process st t_exited o_exited t_wd o_wd) = Some TypeError
          \<and> state_after (ValidatorsSlashed_process st t_exited o_exited t_wd o_wd) = st
          \<and> own_slashed_alerts (ValidatorsSlashed_process st t_exited o_exited t_wd o_wd) = {})"
proof (intro conjI impI)
  assume h: "total_exited_slashed_indexes st = Some total_before
        \<and> own_exited_slashed_indexes st = Some own_before
        \<and> index \<in> dom t_exited \<and> index \<notin> total_before
        \<and> \<not> (index \<in> dom o_exited \<and> index \<notin> own_before)"
  then have "index \<in> (dom t_exited - total_before) - (dom o_exited - own_before)" by blast
  then have ne: "(dom t_exited - total_before) - (dom o_exited - own_before) \<noteq> {}" by blast
  show "raised (ValidatorsSlashed_process st t_exited o_exited t_wd o_wd) = Some TypeError"
    "state_after (ValidatorsSlashed_process st t_exited o_exited t_wd o_wd) = st"
    "own_slashed_alerts (ValidatorsSlashed_process st t_exited o_exited t_wd o_wd) = {}"
    using h ne ValidatorsSlashed_process_primed [of st total_before own_before t_exited o_exited]
    by simp_all
qed (simp_all add: ValidatorsSlashed_process_first)

theorem ValidatorsSlashed_process_type_error_witness:
  "(let v = \<lparr> pubkey = ''0xaa'', effective_balance = 32000000000, slashed = True \<rparr>;
        st = state_after (ValidatorsSlashed_process ValidatorsSlashed_init
               [1 \<mapsto> v] Map.empty Map.empty Map.empty);
        r = ValidatorsSlashed_process st [1 \<mapsto> v, 2 \<mapsto> v] Map.empty Map.empty Map.empty
    in total_exited_slashed_indexes st = Some {1} \<and> own_exited_slashed_indexes st = Some {}
       \<and> (2::int) \<in> dom [1 \<mapsto> v, 2 \<mapsto> v] \<and> (2::int) \<notin> {1}
       \<and> raised r = Some TypeError \<and> state_after r = st \<and> own_slashed_alerts r = {})"
proof -
  define v where "v = \<lparr> pubkey = ''0xaa'', effective_balance = 32000000000, slashed = True \<rparr>"
  define st where "st = state_after (ValidatorsSlashed_process ValidatorsSlashed_init
               [1 \<mapsto> v] Map.empty Map.empty Map.empty)"
  have st: "total_exited_slashed_indexes st = Some {1}" "own_exited_slashed_indexes st = Some {}"
    by (simp_all add: st_def ValidatorsSlashed_process_def ValidatorsSlashed_init_def Let_def)
  have "raised (ValidatorsSlashed_process st [1 \<mapsto> v, 2 \<mapsto> v] Map.empty Map.empty Map.empty)
          = Some TypeError
      \<and> state_after (ValidatorsSlashed_process st [1 \<mapsto> v, 2 \<mapsto> v] Map.empty Map.empty Map.empty)
          = st
      \<and> own_slashed_alerts
          (ValidatorsSlashed_process st [1 \<mapsto> v, 2 \<mapsto> v] Map.empty Map.empty Map.empty) = {}"
    using st ValidatorsSlashed_process_type_error
      [of "[1 \<mapsto> v]" Map.empty Map.empty Map.empty st "{1}" "{}" 2 "[1 \<mapsto> v, 2 \<mapsto> v]" Map.empty
        Map.empty Map.empty]
    by simp
  then show ?thesis using st by (simp add: Let_def flip: v_def st_def)
qed

section \<open>Consensus node client\<close>

text \<open>C4. For Nimbus, \<open>get_validators_liveness\<close> sends no request, prints its warning on the
  first call only, and returns the dictionary that maps every queried index to \<open>True\<close>. For
  Prysm and Nimbus, \<open>get_rewards\<close> sends no request and prints its warning on the first call
  only, but it does not return empty rewards: it passes \<open>possible_rewards\<close> and
  \<open>earned_rewards\<close> to a model whose fields are \<open>ideal_rewards\<close> and \<open>total_rewards\<close>, and
  the construction raises \<open>ValidationError\<close>.\<close>

theorem get_rewards_unsupported_client:
  "returned (get_validators_liveness b self NIMBUS epoch vs)
     = Inr (\<lambda>index. if index \<in> vs then Some True else None)
   \<and> requests (get_validators_liveness b self NIMBUS epoch vs) = 0
   \<and> printed (get_validators_liveness b self NIMBUS epoch vs)
       = (if first_liveness_call self then [LivenessUnsupportedWarning] else [])
   \<and> first_liveness_call (node_after (get_validators_liveness b self NIMBUS epoch vs)) = False
   \<and> returned (get_rewards b self NIMBUS epoch vi) = Inl ValidationError
   \<and> returned (get_rewards b self PRYSM epoch vi) = Inl ValidationError
   \<and> requests (get_rewards b self NIMBUS epoch vi) = 0
   \<and> requests (get_rewards b self PRYSM epoch vi) = 0
   \<and> printed (get_rewards b self PRYSM epoch vi)
       = (if first_rewards_call self then [RewardsUnsupportedWarning] else [])
   \<and> printed (get_rewards b self NIMBUS epoch vi)
       = (if first_rewards_call self then [RewardsUnsupportedWarning] else [])
   \<and> first_rewards_call (node_after (get_rewards b self PRYSM epoch vi)) = False
   \<and> first_rewards_call (node_after (get_rewards b self NIMBUS epoch vi)) = False"
  by (simp add: get_validators_liveness_def get_rewards_def Rewards_Data_init_def)

section \<open>Slot clock\<close>

lemma snth_slots_from:
  "slots_from cfg g s !! i = (s + int i, g + (s + int i) * SECONDS_PER_SLOT cfg)"
proof (induction i arbitrary: s)
  case 0
  show ?case by simp
next
  case (Suc i)
  have "slots_from cfg g s !! Suc i = slots_from cfg g (s + 1) !! i" by simp
  also have "\<dots> = (s + 1 + int i, g + (s + 1 + int i) * SECONDS_PER_SLOT cfg)" by (rule Suc.IH)
  finally show ?case by (simp add: algebra_simps)
qed

lemma float_of_int_exact: "\<bar>i\<bar> < 2 ^ 53 \<Longrightarrow> float_of_int i = Inr (of_int i)"
proof -
  assume i: "\<bar>i\<bar> < 2 ^ 53"
  have "round_to_double (of_int i * 2 powi 0) = of_int i * 2 powi 0"
    using i by (intro round_to_double_exact) simp_all
  then have r: "round_to_double (of_int i) = of_int i" by simp
  have "(of_int \<bar>i\<bar> :: rat) < of_int (2 ^ 53)" using i by (simp only: of_int_less_iff)
  moreover have "(of_int (2 ^ 53) :: rat) < 2 ^ 1024" by simp
  ultimately have "is_finite_double (of_int i)" by (simp add: is_finite_double_def)
  then show ?thesis by (simp add: float_of_int_def r)
qed

lemma py_int_round_div_nonneg:
  assumes "0 \<le> n" "n < 2 ^ 53" "0 < d"
  shows "py_int (round_to_double (of_int n / of_int d)) = \<lfloor>(of_int n / of_int d :: rat)\<rfloor>"
proof -
  have fl: "\<lfloor>round_to_double (of_int n / of_int d)\<rfloor> = n div d"
    using assms by (rule floor_round_to_double_div)
  have "0 \<le> n div d" using assms by (simp add: pos_imp_zdiv_nonneg_iff)
  then have "0 \<le> round_to_double (of_int n / of_int d)" using fl by (simp flip: zero_le_floor)
  then show ?thesis using fl by (simp add: py_int_def floor_divide_of_int_eq)
qed

lemma py_int_round_div_neg:
  assumes "n < 0" "- (2 ^ 53) < n" "0 < d"
  shows "py_int (round_to_double (of_int n / of_int d)) = \<lceil>(of_int n / of_int d :: rat)\<rceil>"
proof -
  define q where "q = round_to_double (of_int (- n) / of_int d)"
  have fl: "\<lfloor>q\<rfloor> = (- n) div d"
    unfolding q_def using assms by (intro floor_round_to_double_div) simp_all
  have "0 \<le> (- n) div d" using assms by (simp add: pos_imp_zdiv_nonneg_iff)
  then have q0: "0 \<le> q" using fl by (simp flip: zero_le_floor)
  have r: "round_to_double (of_int n / of_int d) = - q"
    by (simp add: q_def flip: round_to_double_minus)
  have "py_int (- q) = - \<lfloor>q\<rfloor>"
  proof (cases "q = 0")
    case True
    then show ?thesis by (simp add: py_int_def)
  next
    case False
    then have "\<not> 0 \<le> - q" using q0 by simp
    then show ?thesis by (simp add: py_int_def ceiling_def)
  qed
  also have "- \<lfloor>q\<rfloor> = - \<lfloor>(of_int (- n) / of_int d :: rat)\<rfloor>"
    by (simp only: fl floor_divide_of_int_eq)
  also have "\<dots> = \<lceil>(of_int n / of_int d :: rat)\<rceil>" by (simp add: ceiling_def)
  finally show ?thesis by (simp add: r)
qed

lemma first_slot_exact:
  assumes S: "0 < SECONDS_PER_SLOT cfg" "SECONDS_PER_SLOT cfg < 2 ^ 53"
    and g: "\<bar>g\<bar> < 2 ^ 53"
    and el: "now - of_int g = of_int n / 2 ^ k" "\<bar>n\<bar> < 2 ^ 53" "k \<le> 1074"
  shows "first_slot cfg now g =
           Inr (if of_int g \<le> now
                then \<lfloor>(now - of_int g) / of_int (SECONDS_PER_SLOT cfg)\<rfloor> + 1
                else \<lceil>(now - of_int g) / of_int (SECONDS_PER_SLOT cfg)\<rceil> + 1)"
proof -
  let ?S = "SECONDS_PER_SLOT cfg"
  define D where "D = 2 ^ k * ?S"
  have D: "0 < D" using S by (simp add: D_def)
  have fg: "float_of_int g = Inr (of_int g)" using g by (rule float_of_int_exact)
  have fS: "float_of_int ?S = Inr (of_int ?S)" using S by (intro float_of_int_exact) simp
  have "of_int n / 2 ^ k = (of_int n :: rat) * 2 powi (- int k)"
    by (simp add: power_int_minus field_simps)
  moreover have "round_to_double (of_int n * 2 powi (- int k)) = of_int n * 2 powi (- int k)"
    using el(2,3) by (intro round_to_double_exact) simp_all
  ultimately have ex: "round_to_double (now - of_int g) = now - of_int g" by (simp add: el(1))
  have "\<bar>of_int n / 2 ^ k :: rat\<bar> \<le> \<bar>of_int n\<bar>"
  proof -
    have "(1::rat) \<le> 2 ^ k" by simp
    then have "\<bar>of_int n :: rat\<bar> / 2 ^ k \<le> \<bar>of_int n\<bar> / 1"
      by (intro divide_left_mono) simp_all
    then show ?thesis by simp
  qed
  moreover have "(of_int \<bar>n\<bar> :: rat) < of_int (2 ^ 53)" using el(2) by (simp only: of_int_less_iff)
  moreover have "(of_int (2 ^ 53) :: rat) < 2 ^ 1024" by simp
  ultimately have fin: "is_finite_double (now - of_int g)"
    by (simp add: is_finite_double_def el(1))
  have q: "(now - of_int g) / of_int ?S = of_int n / of_int D"
    by (simp add: el(1) D_def)
  have "first_slot cfg now g
      = Inr (py_int (round_to_double (of_int n / of_int D)) + 1)"
    using S by (simp add: first_slot_def fg fS ex fin Let_def q)
  moreover have "py_int (round_to_double (of_int n / of_int D))
      = (if of_int g \<le> now then \<lfloor>(of_int n / of_int D :: rat)\<rfloor> else \<lceil>(of_int n / of_int D :: rat)\<rceil>)"
  proof (cases "0 \<le> n")
    case True
    then have "0 \<le> (of_int n :: rat) / 2 ^ k" by simp
    then have "0 \<le> now - of_int g" by (simp only: el(1))
    then have "of_int g \<le> now" by linarith
    then show ?thesis using py_int_round_div_nonneg [of n D] True el(2) D by simp
  next
    case False
    then have "(of_int n :: rat) / 2 ^ k < 0" by (simp add: divide_neg_pos)
    then have "now - of_int g < 0" by (simp only: el(1))
    then have "\<not> of_int g \<le> now" by linarith
    then show ?thesis using py_int_round_div_neg [of n D] False el(2) D by simp
  qed
  ultimately show ?thesis by (simp add: q)
qed

text \<open>C8, as amended. Every pair the clock yields satisfies
  \<open>start_time = genesis_time + slot * SECONDS_PER_SLOT\<close>, and each slot is the one before plus
  one. The first slot is the float quotient truncated towards zero, plus one. When the slot
  length, the genesis time and the elapsed time are floats that the arithmetic handles
  exactly (a positive slot length and a genesis time below \<open>2 ^ 53\<close> in magnitude, an elapsed
  time \<open>n / 2 ^ k\<close> with \<open>\<bar>n\<bar> < 2 ^ 53\<close> and \<open>k \<le> 1074\<close>), the first slot is
  \<open>\<lfloor>(now - genesis_time) / SECONDS_PER_SLOT\<rfloor> + 1\<close> at or after genesis, and
  \<open>\<lceil>(now - genesis_time) / SECONDS_PER_SLOT\<rceil> + 1\<close> before genesis.\<close>

theorem get_next_slot_spec:
  "(get_next_slot cfg now g = Inr clock \<longrightarrow>
      (\<forall>i. snd (clock !! i) = g + fst (clock !! i) * SECONDS_PER_SLOT cfg
           \<and> fst (clock !! Suc i) = fst (clock !! i) + 1))
   \<and> (0 < SECONDS_PER_SLOT cfg \<and> SECONDS_PER_SLOT cfg < 2 ^ 53 \<and> \<bar>g\<bar> < 2 ^ 53
        \<and> now - of_int g = of_int n / 2 ^ k \<and> \<bar>n\<bar> < 2 ^ 53 \<and> k \<le> 1074 \<longrightarrow>
      get_next_slot cfg now g =
        Inr (slots_from cfg g
               (if of_int g \<le> now
                then \<lfloor>(now - of_int g) / of_int (SECONDS_PER_SLOT cfg)\<rfloor> + 1
                else \<lceil>(now - of_int g) / of_int (SECONDS_PER_SLOT cfg)\<rceil> + 1)))"
proof (intro conjI impI)
  assume "get_next_slot cfg now g = Inr clock"
  then obtain s where "clock = slots_from cfg g s"
    by (auto simp: get_next_slot_def split: sum.splits)
  then show "\<forall>i. snd (clock !! i) = g + fst (clock !! i) * SECONDS_PER_SLOT cfg
           \<and> fst (clock !! Suc i) = fst (clock !! i) + 1"
    by (simp only: snth_slots_from) simp
next
  assume "0 < SECONDS_PER_SLOT cfg \<and> SECONDS_PER_SLOT cfg < 2 ^ 53 \<and> \<bar>g\<bar> < 2 ^ 53
        \<and> now - of_int g = of_int n / 2 ^ k \<and> \<bar>n\<bar> < 2 ^ 53 \<and> k \<le> 1074"
  then have "first_slot cfg now g =
           Inr (if of_int g \<le> now
                then \<lfloor>(now - of_int g) / of_int (SECONDS_PER_SLOT cfg)\<rfloor> + 1
                else \<lceil>(now - of_int g) / of_int (SECONDS_PER_SLOT cfg)\<rceil> + 1)"
    by (intro first_slot_exact [of cfg g now n k]) simp_all
  then show "get_next_slot cfg now g =
        Inr (slots_from cfg g
               (if of_int g \<le> now
                then \<lfloor>(now - of_int g) / of_int (SECONDS_PER_SLOT cfg)\<rfloor> + 1
                else \<lceil>(now - of_int g) / of_int (SECONDS_PER_SLOT cfg)\<rceil> + 1))"
    by (simp only: get_next_slot_def sum.case)
qed

theorem get_next_slot_spec_witness:
  "0 < SECONDS_PER_SLOT spec_config \<and> SECONDS_PER_SLOT spec_config < 2 ^ 53
   \<and> \<bar>100 :: int\<bar> < 2 ^ 53 \<and> (261 / 2 :: rat) - of_int 100 = of_int 61 / 2 ^ 1
   \<and> \<bar>61 :: int\<bar> < 2 ^ 53 \<and> (1 :: nat) \<le> 1074
   \<and> get_next_slot spec_config (261 / 2) 100 = Inr (slots_from spec_config 100 3)
   \<and> slots_from spec_config 100 3 !! 0 = (3, 136)
   \<and> slots_from spec_config 100 3 !! 1 = (4, 148)"
proof -
  have h: "0 < SECONDS_PER_SLOT spec_config \<and> SECONDS_PER_SLOT spec_config < 2 ^ 53
      \<and> \<bar>100 :: int\<bar> < 2 ^ 53 \<and> (261 / 2 :: rat) - of_int 100 = of_int 61 / 2 ^ 1
      \<and> \<bar>61 :: int\<bar> < 2 ^ 53 \<and> (1 :: nat) \<le> 1074"
    by (simp add: spec_config_def)
  have s: "SECONDS_PER_SLOT spec_config = 12" by (simp add: spec_config_def)
  have f: "\<lfloor>(61 / 24 :: rat)\<rfloor> = 2" by (rule floor_unique) simp_all
  have run: "get_next_slot spec_config (261 / 2) 100 = Inr (slots_from spec_config 100 3)"
    using h get_next_slot_spec [of spec_config "261 / 2" 100 "slots_from spec_config 100 3" 61 1]
    by (simp add: s f)
  have "\<forall>i. snd (slots_from spec_config 100 3 !! i)
            = 100 + fst (slots_from spec_config 100 3 !! i) * SECONDS_PER_SLOT spec_config
          \<and> fst (slots_from spec_config 100 3 !! Suc i) = fst (slots_from spec_config 100 3 !! i) + 1"
    using run get_next_slot_spec [of spec_config "261 / 2" 100 "slots_from spec_config 100 3" 61 1]
    by blast
  then have "snd (slots_from spec_config 100 3 !! 0) = 136"
    "fst (slots_from spec_config 100 3 !! Suc 0) = 4"
    "snd (slots_from spec_config 100 3 !! Suc 0) = 148"
    by (simp_all add: s)
  then show ?thesis using h run by (simp add: prod_eq_iff)
qed

text \<open>Before genesis the claim as stated fails: 30 seconds before a genesis at 100, with slots
  of 12 seconds, the quotient \<open>- 2.5\<close> truncates to \<open>- 2\<close> and the first slot is \<open>- 1\<close>, where
  the floor gives \<open>- 2\<close>.\<close>

theorem get_next_slot_counterexample:
  "get_next_slot spec_config 70 100 = Inr (slots_from spec_config 100 (- 1))
   \<and> shd (slots_from spec_config 100 (- 1)) = (- 1, 88)
   \<and> \<lfloor>((70 :: rat) - of_int 100) / of_int (SECONDS_PER_SLOT spec_config)\<rfloor> + 1 = - 2"
proof -
  have s: "SECONDS_PER_SLOT spec_config = 12" by (simp add: spec_config_def)
  have "first_slot spec_config 70 100 =
           Inr (if of_int 100 \<le> (70 :: rat)
                then \<lfloor>((70 :: rat) - of_int 100) / of_int (SECONDS_PER_SLOT spec_config)\<rfloor> + 1
                else \<lceil>((70 :: rat) - of_int 100) / of_int (SECONDS_PER_SLOT spec_config)\<rceil> + 1)"
    by (rule first_slot_exact [of spec_config 100 70 "- 30" 0]) (simp_all add: s)
  moreover have "\<lceil>(- 5 / 2 :: rat)\<rceil> = - 2" by (rule ceiling_unique) simp_all
  moreover have "\<lfloor>(- 5 / 2 :: rat)\<rfloor> = - 3" by (rule floor_unique) simp_all
  ultimately show ?thesis by (simp add: get_next_slot_def s)
qed
section \<open>Missed blocks at finalization\<close>

lemma epoch_of_slot_div:
  assumes "0 < SLOTS_PER_EPOCH cfg" "0 \<le> slot" "slot < 2 ^ 53"
  shows "epoch_of_slot cfg slot = Inr (slot div SLOTS_PER_EPOCH cfg)"
proof -
  obtain q where "int_truediv slot (SLOTS_PER_EPOCH cfg) = Inr q"
    "math_floor q = slot div SLOTS_PER_EPOCH cfg"
    using int_truediv_floor [OF assms(2,3,1)] by blast
  then show ?thesis by (simp add: epoch_of_slot_def)
qed

lemma print_and_broadcast_ok:
  assumes "\<forall>send. telegram = Some send \<longrightarrow> send message = None"
  shows "print_and_broadcast telegram message
    = (Print message # (if telegram \<noteq> None then [Broadcast message] else []), None)"
  using assms by (cases telegram) (simp_all add: print_and_broadcast_def)

lemma finalized_slot_step_expected:
  assumes cfg: "0 < SLOTS_PER_EPOCH cfg" and slot: "0 \<le> slot" "slot < 2 ^ 53"
    and ok: "slot_requests_succeed cfg cl_node proposer has_block block_reward own_pubkeys
      telegram slot"
    and reward: "0 \<le> block_reward"
  shows "finalized_slot_step cfg cl_node block_reward own_pubkeys telegram slot
    = (expected_slot_effects cfg proposer has_block block_reward own_pubkeys telegram slot, None)"
proof -
  obtain ds where duties: "proposer_duties cl_node (slot div SLOTS_PER_EPOCH cfg) = Inr ds"
    "find_proposer ds slot = Inr (proposer slot)"
    using ok by (auto simp: slot_requests_succeed_def)
  show ?thesis
  proof (cases "proposer slot \<in> own_pubkeys")
    case False
    then show ?thesis
      by (simp add: finalized_slot_step_def expected_slot_effects_def
          epoch_of_slot_div [OF cfg slot] duties)
  next
    case True
    let ?message = "expected_alert cfg proposer has_block block_reward slot"
    have "\<forall>send. telegram = Some send \<longrightarrow> send ?message = None"
      using ok True by (simp add: slot_requests_succeed_def)
    then have pb: "print_and_broadcast telegram ?message
      = (Print ?message # (if telegram \<noteq> None then [Broadcast ?message] else []), None)"
      by (rule print_and_broadcast_ok)
    have "(has_block slot \<and> (\<exists>h. header_at cl_node slot = Inr h))
      \<or> (\<not> has_block slot \<and> header_at cl_node slot = Inl NoBlockError)"
      using ok True by (simp add: slot_requests_succeed_def)
    then show ?thesis
    proof (elim disjE conjE exE)
      fix h assume hb: "has_block slot" and "header_at cl_node slot = Inr h"
      moreover have "?message = Proposed (proposer slot) slot block_reward"
        using hb by (simp add: expected_alert_def)
      ultimately show ?thesis
        using True reward pb
        by (simp add: finalized_slot_step_def expected_slot_effects_def
            epoch_of_slot_div [OF cfg slot] duties counter_inc_def Let_def)
    next
      assume hb: "\<not> has_block slot" and "header_at cl_node slot = Inl NoBlockError"
      moreover have "?message = Missed (proposer slot) (slot div SLOTS_PER_EPOCH cfg) slot"
        using hb by (simp add: expected_alert_def)
      ultimately show ?thesis
        using True pb
        by (simp add: finalized_slot_step_def expected_slot_effects_def
            epoch_of_slot_div [OF cfg slot] duties Let_def)
    qed
  qed
qed

lemma finalized_slot_step_header_error:
  assumes cfg: "0 < SLOTS_PER_EPOCH cfg" and slot: "0 \<le> slot" "slot < 2 ^ 53"
    and duties: "proposer_duties cl_node (slot div SLOTS_PER_EPOCH cfg) = Inr ds"
      "find_proposer ds slot = Inr (proposer slot)"
    and own: "proposer slot \<in> own_pubkeys"
    and header: "header_at cl_node slot = Inl e" "e \<noteq> NoBlockError"
  shows "finalized_slot_step cfg cl_node block_reward own_pubkeys telegram slot = ([], Some e)"
  using own header
  by (simp add: finalized_slot_step_def epoch_of_slot_div [OF cfg slot] duties)

lemma finalized_slots_loop_expected:
  assumes cfg: "0 < SLOTS_PER_EPOCH cfg"
    and slots: "\<forall>slot \<in> set slots. 0 \<le> slot \<and> slot < 2 ^ 53
      \<and> slot_requests_succeed cfg cl_node proposer has_block block_reward own_pubkeys telegram
           slot"
    and reward: "0 \<le> block_reward"
  shows "finalized_slots_loop cfg cl_node block_reward own_pubkeys telegram slots
    = (concat (map (expected_slot_effects cfg proposer has_block block_reward own_pubkeys telegram)
         slots), None)"
  using slots
proof (induction slots)
  case Nil
  show ?case by simp
next
  case (Cons slot slots)
  have "finalized_slot_step cfg cl_node block_reward own_pubkeys telegram slot
    = (expected_slot_effects cfg proposer has_block block_reward own_pubkeys telegram slot, None)"
    using cfg Cons.prems reward by (intro finalized_slot_step_expected) simp_all
  moreover have "finalized_slots_loop cfg cl_node block_reward own_pubkeys telegram slots
    = (concat (map (expected_slot_effects cfg proposer has_block block_reward own_pubkeys telegram)
         slots), None)"
    using Cons.prems by (intro Cons.IH) simp
  ultimately show ?case by simp
qed

lemma finalized_slots_loop_append:
  assumes "finalized_slots_loop cfg cl_node block_reward own_pubkeys telegram before
    = (effects, None)"
  shows "finalized_slots_loop cfg cl_node block_reward own_pubkeys telegram (before @ later)
    = (effects @ fst (finalized_slots_loop cfg cl_node block_reward own_pubkeys telegram later),
       snd (finalized_slots_loop cfg cl_node block_reward own_pubkeys telegram later))"
  using assms
proof (induction before arbitrary: effects)
  case Nil
  then show ?case by simp
next
  case (Cons slot before)
  obtain first r where step:
    "finalized_slot_step cfg cl_node block_reward own_pubkeys telegram slot = (first, r)"
    by (cases "finalized_slot_step cfg cl_node block_reward own_pubkeys telegram slot")
  obtain rest r' where loop:
    "finalized_slots_loop cfg cl_node block_reward own_pubkeys telegram before = (rest, r')"
    by (cases "finalized_slots_loop cfg cl_node block_reward own_pubkeys telegram before")
  have r: "r = None" using Cons.prems step by (cases r) simp_all
  then have "r' = None" "effects = first @ rest"
    using Cons.prems step loop by simp_all
  then show ?case
    using Cons.IH [of rest] step loop r by (simp add: split_beta)
qed

lemma count_missed_expected:
  "length (filter (\<lambda>e. e = IncMissedFinalized)
      (concat (map (expected_slot_effects cfg proposer has_block block_reward own_pubkeys telegram)
         slots)))
   = length (filter (\<lambda>slot. proposer slot \<in> own_pubkeys \<and> \<not> has_block slot) slots)"
  by (induction slots) (simp_all add: expected_slot_effects_def)

text \<open>C2, as amended. Take a call with \<open>last_processed_finalized_slot \<le> slot\<close> in which the
  finalized header is fetched, the slots are non-negative and below \<open>2 ^ 53\<close>, the duties of
  the finalized epoch are fetched and the block reward is not negative.

  If the requests of every slot in \<open>(last, finalized]\<close> succeed (the duties name a proposer;
  for an own proposer the header request succeeds or raises \<open>NoBlockError\<close>, and the broadcast
  of the alert completes), the effects of the call are, slot by slot in increasing order:
  nothing for a proposer that is not own; the reward increment and a "proposed" alert for an
  own proposer whose header exists; one increment of \<open>n_missed_finalized_proposals\<close> and a
  "missed" alert for an own proposer whose header does not exist. The number of
  missed-proposal increments is the number of own slots without a header. The call returns
  the finalized slot, and the caller's assignment sets \<open>last_processed_finalized_slot\<close> to it.

  If the requests of the slots before some slot \<open>t\<close> of the range succeed, and the header
  request of \<open>t\<close>, whose proposer is own, raises an error other than \<open>NoBlockError\<close>, the call
  raises that error after the effects of the slots before \<open>t\<close>: it returns no slot, and
  \<open>last_processed_finalized_slot\<close> keeps its value.\<close>

theorem process_missed_blocks_finalized_spec:
  assumes "last_slot \<le> slot" and "0 \<le> last_slot"
    and "finalized_header cl_node = Inr finalized" and "0 \<le> finalized" and "finalized < 2 ^ 53"
    and "0 < SLOTS_PER_EPOCH cfg" and "0 \<le> block_reward"
    and "\<exists>ds. proposer_duties cl_node (finalized div SLOTS_PER_EPOCH cfg) = Inr ds"
  shows "((\<forall>s. last_slot < s \<and> s \<le> finalized \<longrightarrow>
             slot_requests_succeed cfg cl_node proposer has_block block_reward own_pubkeys
               telegram s) \<longrightarrow>
          process_missed_blocks_finalized cfg cl_node last_slot slot block_reward own_pubkeys
              telegram
            = (concat (map (expected_slot_effects cfg proposer has_block block_reward own_pubkeys
                              telegram) [last_slot + 1 .. finalized]),
               Inr finalized)
        \<and> assign_last_processed_finalized_slot cfg cl_node last_slot slot block_reward
              own_pubkeys telegram
            = (concat (map (expected_slot_effects cfg proposer has_block block_reward own_pubkeys
                              telegram) [last_slot + 1 .. finalized]),
               None, finalized)
        \<and> length (filter (\<lambda>e. e = IncMissedFinalized)
             (fst (process_missed_blocks_finalized cfg cl_node last_slot slot block_reward
                     own_pubkeys telegram)))
            = length (filter (\<lambda>s. proposer s \<in> own_pubkeys \<and> \<not> has_block s)
                [last_slot + 1 .. finalized]))
    \<and> (last_slot < t \<and> t \<le> finalized
        \<and> (\<forall>s. last_slot < s \<and> s < t \<longrightarrow>
             slot_requests_succeed cfg cl_node proposer has_block block_reward own_pubkeys
               telegram s)
        \<and> (\<exists>ds. proposer_duties cl_node (t div SLOTS_PER_EPOCH cfg) = Inr ds
              \<and> find_proposer ds t = Inr (proposer t))
        \<and> proposer t \<in> own_pubkeys \<and> header_at cl_node t = Inl e \<and> e \<noteq> NoBlockError \<longrightarrow>
          process_missed_blocks_finalized cfg cl_node last_slot slot block_reward own_pubkeys
              telegram
            = (concat (map (expected_slot_effects cfg proposer has_block block_reward own_pubkeys
                              telegram) [last_slot + 1 .. t - 1]),
               Inl e)
        \<and> assign_last_processed_finalized_slot cfg cl_node last_slot slot block_reward
              own_pubkeys telegram
            = (concat (map (expected_slot_effects cfg proposer has_block block_reward own_pubkeys
                              telegram) [last_slot + 1 .. t - 1]),
               Some e, last_slot))"
proof (intro conjI impI)
  let ?expected = "expected_slot_effects cfg proposer has_block block_reward own_pubkeys telegram"
  let ?ok = "slot_requests_succeed cfg cl_node proposer has_block block_reward own_pubkeys telegram"
  let ?loop = "finalized_slots_loop cfg cl_node block_reward own_pubkeys telegram"
  have e: "epoch_of_slot cfg finalized = Inr (finalized div SLOTS_PER_EPOCH cfg)"
    using assms(6,4,5) by (rule epoch_of_slot_div)
  obtain ds where d: "proposer_duties cl_node (finalized div SLOTS_PER_EPOCH cfg) = Inr ds"
    using assms(8) by blast
  have call: "process_missed_blocks_finalized cfg cl_node last_slot slot block_reward own_pubkeys
        telegram
      = (case ?loop [last_slot + 1 .. finalized] of
           (effects, Some e) \<Rightarrow> (effects, Inl e)
         | (effects, None) \<Rightarrow> (effects, Inr finalized))"
    using assms(1,3) by (simp add: process_missed_blocks_finalized_def e d)
  {
    assume all: "\<forall>s. last_slot < s \<and> s \<le> finalized \<longrightarrow> ?ok s"
    have "\<forall>s \<in> set [last_slot + 1 .. finalized]. 0 \<le> s \<and> s < 2 ^ 53 \<and> ?ok s"
      using all assms(2,5) by auto
    then have "?loop [last_slot + 1 .. finalized]
        = (concat (map ?expected [last_slot + 1 .. finalized]), None)"
      using assms(6,7) by (intro finalized_slots_loop_expected) simp_all
    then have r: "process_missed_blocks_finalized cfg cl_node last_slot slot block_reward
          own_pubkeys telegram
        = (concat (map ?expected [last_slot + 1 .. finalized]), Inr finalized)"
      by (simp add: call)
    show "process_missed_blocks_finalized cfg cl_node last_slot slot block_reward own_pubkeys
          telegram
        = (concat (map ?expected [last_slot + 1 .. finalized]), Inr finalized)"
      by (rule r)
    show "assign_last_processed_finalized_slot cfg cl_node last_slot slot block_reward
          own_pubkeys telegram
        = (concat (map ?expected [last_slot + 1 .. finalized]), None, finalized)"
      by (simp add: assign_last_processed_finalized_slot_def r)
    show "length (filter (\<lambda>e. e = IncMissedFinalized)
           (fst (process_missed_blocks_finalized cfg cl_node last_slot slot block_reward
                   own_pubkeys telegram)))
        = length (filter (\<lambda>s. proposer s \<in> own_pubkeys \<and> \<not> has_block s)
            [last_slot + 1 .. finalized])"
      by (simp add: r count_missed_expected)
  }
  {
    assume h: "last_slot < t \<and> t \<le> finalized
        \<and> (\<forall>s. last_slot < s \<and> s < t \<longrightarrow> ?ok s)
        \<and> (\<exists>ds. proposer_duties cl_node (t div SLOTS_PER_EPOCH cfg) = Inr ds
              \<and> find_proposer ds t = Inr (proposer t))
        \<and> proposer t \<in> own_pubkeys \<and> header_at cl_node t = Inl e \<and> e \<noteq> NoBlockError"
    then obtain dt where dt: "proposer_duties cl_node (t div SLOTS_PER_EPOCH cfg) = Inr dt"
      "find_proposer dt t = Inr (proposer t)" by blast
    have t: "0 \<le> t" "t < 2 ^ 53" using h assms(2,5) by linarith+
    from h have own: "proposer t \<in> own_pubkeys"
      and header: "header_at cl_node t = Inl e" "e \<noteq> NoBlockError"
      by blast+
    have step: "finalized_slot_step cfg cl_node block_reward own_pubkeys telegram t
        = ([], Some e)"
      by (rule finalized_slot_step_header_error
          [where proposer = proposer, OF assms(6) t dt own header])
    have "\<forall>s \<in> set [last_slot + 1 .. t - 1]. 0 \<le> s \<and> s < 2 ^ 53 \<and> ?ok s"
      using h assms(2,5) by auto
    then have before: "?loop [last_slot + 1 .. t - 1]
        = (concat (map ?expected [last_slot + 1 .. t - 1]), None)"
      using assms(6,7) by (intro finalized_slots_loop_expected) simp_all
    have split: "[last_slot + 1 .. finalized]
        = [last_slot + 1 .. t - 1] @ t # [t + 1 .. finalized]"
      using h by (intro upto_split3) simp_all
    have "?loop (t # [t + 1 .. finalized]) = ([], Some e)" by (simp add: step)
    then have "?loop [last_slot + 1 .. finalized]
        = (concat (map ?expected [last_slot + 1 .. t - 1]), Some e)"
      using finalized_slots_loop_append [OF before, of "t # [t + 1 .. finalized]"]
      by (simp only: split) simp
    then have r: "process_missed_blocks_finalized cfg cl_node last_slot slot block_reward
          own_pubkeys telegram
        = (concat (map ?expected [last_slot + 1 .. t - 1]), Inl e)"
      by (simp add: call)
    show "process_missed_blocks_finalized cfg cl_node last_slot slot block_reward own_pubkeys
          telegram
        = (concat (map ?expected [last_slot + 1 .. t - 1]), Inl e)"
      by (rule r)
    show "assign_last_processed_finalized_slot cfg cl_node last_slot slot block_reward
          own_pubkeys telegram
        = (concat (map ?expected [last_slot + 1 .. t - 1]), Some e, last_slot)"
      by (simp add: assign_last_processed_finalized_slot_def r)
  }
qed

lemma scenario_requests_succeed:
  "\<forall>s. 100 < s \<and> s \<le> 103 \<longrightarrow>
     slot_requests_succeed spec_config scenario_chain
       (\<lambda>s. if s = 102 then ''0xbb'' else ''0xaa'') (\<lambda>s. s = 101) (1 / 2) {''0xaa''}
       reliable_messenger s"
proof (intro allI impI)
  fix s :: int assume "100 < s \<and> s \<le> 103"
  then have "s = 101 \<or> s = 102 \<or> s = 103" by arith
  then show "slot_requests_succeed spec_config scenario_chain
       (\<lambda>s. if s = 102 then ''0xbb'' else ''0xaa'') (\<lambda>s. s = 101) (1 / 2) {''0xaa''}
       reliable_messenger s"
    by (auto simp: slot_requests_succeed_def scenario_chain_def reliable_messenger_def)
qed

theorem process_missed_blocks_finalized_spec_witness:
  "(100 :: int) \<le> 110 \<and> (0 :: int) \<le> 100 \<and> finalized_header scenario_chain = Inr 103
   \<and> (0 :: int) \<le> 103 \<and> (103 :: int) < 2 ^ 53 \<and> 0 < SLOTS_PER_EPOCH spec_config
   \<and> (0 :: rat) \<le> 1 / 2
   \<and> process_missed_blocks_finalized spec_config scenario_chain 100 110 (1 / 2) {''0xaa''}
         reliable_messenger
       = ([IncRewards (1 / 2), Print (Proposed ''0xaa'' 101 (1 / 2)),
           Broadcast (Proposed ''0xaa'' 101 (1 / 2)),
           IncMissedFinalized, Print (Missed ''0xaa'' 3 103), Broadcast (Missed ''0xaa'' 3 103)],
          Inr 103)
   \<and> assign_last_processed_finalized_slot spec_config scenario_chain 100 110 (1 / 2) {''0xaa''}
         reliable_messenger
       = ([IncRewards (1 / 2), Print (Proposed ''0xaa'' 101 (1 / 2)),
           Broadcast (Proposed ''0xaa'' 101 (1 / 2)),
           IncMissedFinalized, Print (Missed ''0xaa'' 3 103), Broadcast (Missed ''0xaa'' 3 103)],
          None, 103)
   \<and> finalized_header failing_chain = Inr 101 \<and> (101 :: int) < 2 ^ 53
   \<and> header_at failing_chain 101 = Inl HTTPError \<and> HTTPError \<noteq> NoBlockError
   \<and> assign_last_processed_finalized_slot spec_config failing_chain 100 110 (1 / 2) {''0xaa''}
         reliable_messenger
       = ([], Some HTTPError, 100)"
proof -
  let ?proposer = "\<lambda>s :: int. if s = 102 then ''0xbb'' else ''0xaa''"
  let ?has_block = "\<lambda>s :: int. s = 101"
  have h: "(100 :: int) \<le> 110" "(0 :: int) \<le> 100" "finalized_header scenario_chain = Inr 103"
    "(0 :: int) \<le> 103" "(103 :: int) < 2 ^ 53" "0 < SLOTS_PER_EPOCH spec_config"
    "(0 :: rat) \<le> 1 / 2"
    by (simp_all add: scenario_chain_def spec_config_def)
  have d: "\<exists>ds. proposer_duties scenario_chain (103 div SLOTS_PER_EPOCH spec_config) = Inr ds"
    by (simp add: scenario_chain_def)
  have u: "[100 + 1 .. 103] = [101, 102, 103 :: int]" by (simp add: upto_rec1)
  have good: "process_missed_blocks_finalized spec_config scenario_chain 100 110 (1 / 2)
        {''0xaa''} reliable_messenger
      = (concat (map (expected_slot_effects spec_config ?proposer ?has_block (1 / 2) {''0xaa''}
                       reliable_messenger) [100 + 1 .. 103]), Inr 103)
    \<and> assign_last_processed_finalized_slot spec_config scenario_chain 100 110 (1 / 2)
        {''0xaa''} reliable_messenger
      = (concat (map (expected_slot_effects spec_config ?proposer ?has_block (1 / 2) {''0xaa''}
                       reliable_messenger) [100 + 1 .. 103]), None, 103)"
    using process_missed_blocks_finalized_spec [where proposer = ?proposer
        and has_block = ?has_block and own_pubkeys = "{''0xaa''}"
        and telegram = reliable_messenger, OF h d]
      scenario_requests_succeed
    by blast
  have h': "(100 :: int) \<le> 110" "(0 :: int) \<le> 100" "finalized_header failing_chain = Inr 101"
    "(0 :: int) \<le> 101" "(101 :: int) < 2 ^ 53" "0 < SLOTS_PER_EPOCH spec_config"
    "(0 :: rat) \<le> 1 / 2"
    by (simp_all add: failing_chain_def spec_config_def)
  have d': "\<exists>ds. proposer_duties failing_chain (101 div SLOTS_PER_EPOCH spec_config) = Inr ds"
    by (simp add: failing_chain_def)
  have f: "(100 :: int) < 101 \<and> (101 :: int) \<le> 101
        \<and> (\<forall>s. 100 < s \<and> s < 101 \<longrightarrow>
             slot_requests_succeed spec_config failing_chain (\<lambda>s. ''0xaa'') (\<lambda>s. False) (1 / 2)
               {''0xaa''} reliable_messenger s)
        \<and> (\<exists>ds. proposer_duties failing_chain (101 div SLOTS_PER_EPOCH spec_config) = Inr ds
              \<and> find_proposer ds 101 = Inr ''0xaa'')
        \<and> ''0xaa'' \<in> {''0xaa''} \<and> header_at failing_chain 101 = Inl HTTPError
        \<and> HTTPError \<noteq> NoBlockError"
    by (auto simp: failing_chain_def)
  have bad: "assign_last_processed_finalized_slot spec_config failing_chain 100 110 (1 / 2)
        {''0xaa''} reliable_messenger
      = (concat (map (expected_slot_effects spec_config (\<lambda>s. ''0xaa'') (\<lambda>s. False) (1 / 2)
                       {''0xaa''} reliable_messenger) [100 + 1 .. 101 - 1]), Some HTTPError, 100)"
    using process_missed_blocks_finalized_spec [where t = 101 and proposer = "\<lambda>s. ''0xaa''"
        and has_block = "\<lambda>s. False" and own_pubkeys = "{''0xaa''}"
        and telegram = reliable_messenger and e = HTTPError, OF h' d'] f
    by blast
  have "assign_last_processed_finalized_slot spec_config failing_chain 100 110 (1 / 2)
        {''0xaa''} reliable_messenger = ([], Some HTTPError, 100)"
    using bad by simp
  then show ?thesis
    using h h' good f
    by (simp add: u expected_slot_effects_def expected_alert_def spec_config_def
        reliable_messenger_def)
qed

text \<open>The claim as stated fails when a header request fails with a status other than 404:
  \<open>get_header\<close> re-raises the error, the function does not catch it, and no finalized slot
  is returned.\<close>

theorem process_missed_blocks_finalized_counterexample:
  "process_missed_blocks_finalized spec_config failing_chain 100 110 (1 / 2) {''0xaa''}
     reliable_messenger
     = ([], Inl HTTPError)"
proof -
  have e: "epoch_of_slot spec_config 101 = Inr (101 div SLOTS_PER_EPOCH spec_config)"
    by (rule epoch_of_slot_div) (simp_all add: spec_config_def)
  have u: "[100 + 1 .. 101] = [101 :: int]" by (simp add: upto_rec1)
  show ?thesis
    by (simp add: process_missed_blocks_finalized_def failing_chain_def e u
        finalized_slot_step_def)
qed

section \<open>Validator keys and the main loop\<close>







section \<open>Attestation inclusion\<close>

subsection \<open>Grouping the decoded vectors by committee\<close>










subsection \<open>The attestation rate\<close>





subsection \<open>The analysis of a block\<close>






end
